theory Spec2Isabelle
  imports Main "HOL-Library.Word"
begin

section \<open>The C++ quick-fix rules of cppquickfixes.cpp\<close>

text \<open>
  A shallow embedding of the quick-fix rules of the C++ editor: each rule's
  \<open>doMatch\<close> becomes a function from the quick-fix interface (the path of syntax
  nodes from the root to the cursor, the file with its tokens and cursor, the semantic
  lookups) to the list of operations it appends to \<open>result\<close>, in the order of
  appending. The syntax tree, the tokens and the lookups are supplied by the code model,
  which is outside this file: the embedding keeps of every node the fields that the rules
  read.
\<close>

subsection \<open>Tokens and numeric literals\<close>

text \<open>
  A token is referred to by its index in the translation unit; index \<open>0\<close> stands for
  a token that is absent. Of the token kinds only those the rules compare with are kept.
\<close>

datatype TokenKind = T_EOF_SYMBOL | T_AMPER_AMPER | T_PIPE_PIPE | T_NUMERIC_LITERAL | T_OTHER

text \<open>
  The lexer's \<open>NumericLiteral\<close>: the spelling of the token (\<open>chars()\<close>, of length
  \<open>size()\<close>) and the flags the lexer has computed from it.
\<close>

record NumericLiteral =
  chars :: string
  isHex :: bool
  isDouble :: bool
  isFloat :: bool

record Token =
  kind :: TokenKind
  number :: NumericLiteral

subsection \<open>Syntax nodes\<close>

datatype SpecifierKind = EnumSpecifier | ClassSpecifier | OtherSpecifier

record SpecifierAST =
  asSpecifier :: SpecifierKind
  spec_firstToken :: int
  spec_lastToken :: int

datatype CoreDeclaratorAST =
    DeclaratorIdAST (declarator_name: "string option")
  | NestedDeclaratorAST

text \<open>
  A declarator, with the text the file holds from its start to the end of its core
  declarator (\<open>decltrText\<close>, read by \<open>assembleDeclarationData\<close>). The cells of the
  syntax lists always carry a value, so a list is a HOL list and the null list is
  \<open>[]\<close>. Initialisers are not part of the model.
\<close>

datatype DeclaratorAST =
    DeclaratorAST (core_declarator: "CoreDeclaratorAST option")
                  (postfix_declarator_list: "PostfixDeclaratorAST list")
                  (decltrText: string)
and PostfixDeclaratorAST =
    FunctionDeclaratorAST (parameter_declaration_clause: "ParameterDeclarationClauseAST option")
  | ArrayDeclaratorAST
and ParameterDeclarationClauseAST =
    ParameterDeclarationClauseAST (parameter_declaration_list: "ParameterDeclarationAST list")
                                  (dot_dot_dot_token: int)
and ParameterDeclarationAST =
    ParameterDeclarationAST (type_specifier_text: string) (declarator: "DeclaratorAST option")

datatype DeclarationAST =
    SimpleDeclarationAST (decl_specifier_list: "SpecifierAST list")
                         (decl_specifier_text: string)
                         (declarator_list: "DeclaratorAST list")
                         (semicolon_token: int)
  | OtherDeclarationAST

datatype ExpressionAST =
    BinaryExpressionAST (left_expression: "ExpressionAST option")
                        (binary_op_token: int)
                        (right_expression: "ExpressionAST option")
  | NumericLiteralAST (literal_token: int)
  | StringLiteralAST (literal_token: int)
  | BoolLiteralAST (literal_token: int)
  | IdExpressionAST (id_token: int)
  | LambdaExpressionAST
  | OtherExpressionAST

text \<open>
  Statements carry the positions \<open>file->startOf(stmt)\<close> and \<open>file->endOf(stmt)\<close>
  in the document. Statements nested in an expression (the body of a lambda) are not part
  of the model.
\<close>

datatype StatementAST =
    CompoundStatementAST (startOf: int) (endOf: int)
        (lbrace_token: int) (statement_list: "StatementAST list")
  | IfStatementAST (startOf: int) (endOf: int)
        (if_token: int) (rparen_token: int) (statement: "StatementAST option")
        (else_token: int) (else_statement: "StatementAST option")
  | WhileStatementAST (startOf: int) (endOf: int)
        (while_token: int) (rparen_token: int) (statement: "StatementAST option")
  | ForStatementAST (startOf: int) (endOf: int)
        (for_token: int) (initializer: "StatementAST option") (rparen_token: int)
        (statement: "StatementAST option")
  | RangeBasedForStatementAST (startOf: int) (endOf: int)
        (for_token: int) (rparen_token: int) (statement: "StatementAST option")
  | ForeachStatementAST (startOf: int) (endOf: int) (statement: "StatementAST option")
  | DoStatementAST (startOf: int) (endOf: int)
        (do_token: int) (statement: "StatementAST option") (while_token: int)
  | SwitchStatementAST (startOf: int) (endOf: int)
        (condition: "ExpressionAST option") (statement: "StatementAST option")
        (has_symbol: bool)
  | CaseStatementAST (startOf: int) (endOf: int)
        (expression: "ExpressionAST option") (statement: "StatementAST option")
  | TryBlockStatementAST (startOf: int) (endOf: int)
        (statement: "StatementAST option") (catch_clause_list: "StatementAST list")
  | CatchClauseAST (startOf: int) (endOf: int) (statement: "StatementAST option")
  | LabeledStatementAST (startOf: int) (endOf: int) (statement: "StatementAST option")
  | DeclarationStatementAST (startOf: int) (endOf: int) (declarationAST: "DeclarationAST option")
  | ReturnStatementAST (startOf: int) (endOf: int) (expression: "ExpressionAST option")
  | ExpressionStatementAST (startOf: int) (endOf: int) (expression: "ExpressionAST option")

text \<open>The symbol of a function definition, as far as \<open>ExtractFunction\<close> reads it.\<close>

record Function =
  function_name :: "string option"
  enclosingScope_asTemplate :: bool

record FunctionDefinitionAST =
  fd_declarator :: DeclaratorAST
  function_body :: "StatementAST option"
  fd_symbol :: "Function option"

text \<open>The nodes of the path, with the casts \<open>asIfStatement()\<close> and so on.\<close>

datatype AST =
    Statement StatementAST
  | Expression ExpressionAST
  | Declaration DeclarationAST
  | FunctionDefinition FunctionDefinitionAST
  | CoreDeclarator CoreDeclaratorAST
  | OtherAST

fun asIfStatement :: "AST \<Rightarrow> StatementAST option" where
  "asIfStatement (Statement (IfStatementAST s e it rp st et es)) =
     Some (IfStatementAST s e it rp st et es)"
| "asIfStatement _ = None"

fun asWhileStatement :: "AST \<Rightarrow> StatementAST option" where
  "asWhileStatement (Statement (WhileStatementAST s e wt rp st)) =
     Some (WhileStatementAST s e wt rp st)"
| "asWhileStatement _ = None"

fun asForStatement :: "AST \<Rightarrow> StatementAST option" where
  "asForStatement (Statement (ForStatementAST s e ft i rp st)) =
     Some (ForStatementAST s e ft i rp st)"
| "asForStatement _ = None"

fun asRangeBasedForStatement :: "AST \<Rightarrow> StatementAST option" where
  "asRangeBasedForStatement (Statement (RangeBasedForStatementAST s e ft rp st)) =
     Some (RangeBasedForStatementAST s e ft rp st)"
| "asRangeBasedForStatement _ = None"

fun asDoStatement :: "AST \<Rightarrow> StatementAST option" where
  "asDoStatement (Statement (DoStatementAST s e dt st wt)) =
     Some (DoStatementAST s e dt st wt)"
| "asDoStatement _ = None"

fun asSwitchStatement :: "AST \<Rightarrow> StatementAST option" where
  "asSwitchStatement (Statement (SwitchStatementAST s e c st sy)) =
     Some (SwitchStatementAST s e c st sy)"
| "asSwitchStatement _ = None"

fun asCompoundStatement :: "StatementAST \<Rightarrow> StatementAST option" where
  "asCompoundStatement (CompoundStatementAST s e lb sl) = Some (CompoundStatementAST s e lb sl)"
| "asCompoundStatement _ = None"

fun asBinaryExpression :: "AST \<Rightarrow> ExpressionAST option" where
  "asBinaryExpression (Expression (BinaryExpressionAST l t r)) = Some (BinaryExpressionAST l t r)"
| "asBinaryExpression _ = None"

fun asNumericLiteral :: "AST \<Rightarrow> ExpressionAST option" where
  "asNumericLiteral (Expression (NumericLiteralAST t)) = Some (NumericLiteralAST t)"
| "asNumericLiteral _ = None"

fun asStringLiteral :: "AST \<Rightarrow> ExpressionAST option" where
  "asStringLiteral (Expression (StringLiteralAST t)) = Some (StringLiteralAST t)"
| "asStringLiteral _ = None"

fun asBoolLiteral :: "AST \<Rightarrow> ExpressionAST option" where
  "asBoolLiteral (Expression (BoolLiteralAST t)) = Some (BoolLiteralAST t)"
| "asBoolLiteral _ = None"

fun asLambdaExpression :: "AST \<Rightarrow> ExpressionAST option" where
  "asLambdaExpression (Expression LambdaExpressionAST) = Some LambdaExpressionAST"
| "asLambdaExpression _ = None"

fun asCoreDeclarator :: "AST \<Rightarrow> CoreDeclaratorAST option" where
  "asCoreDeclarator (CoreDeclarator c) = Some c"
| "asCoreDeclarator _ = None"

fun asSimpleDeclaration :: "AST \<Rightarrow> DeclarationAST option" where
  "asSimpleDeclaration (Declaration (SimpleDeclarationAST sl tx dl sc)) =
     Some (SimpleDeclarationAST sl tx dl sc)"
| "asSimpleDeclaration _ = None"

fun asFunctionDefinition :: "AST \<Rightarrow> FunctionDefinitionAST option" where
  "asFunctionDefinition (FunctionDefinition f) = Some f"
| "asFunctionDefinition _ = None"

subsection \<open>The semantic lookups\<close>

text \<open>
  An enum with its name and its members: a member that is a declaration is given by its
  pretty-printed fully qualified name, any other member is \<open>None\<close>.
\<close>

record Enum =
  enum_name :: "string option"
  members :: "string option list"

text \<open>
  Types as \<open>findEnum\<close> tells them apart. A named type carries the name it refers to
  (its last component, when qualified) and what \<open>lookupType\<close> finds for it: nothing,
  or the enums of the class or namespace found (the unscoped enums, then the symbols that
  are enums).
\<close>

datatype CppType =
    EnumType Enum
  | NamedType (referenceName: string) (lookupType: "Enum list option")
  | OtherType

record Symbol =
  symbol_type :: "CppType option"
  fullyQualifiedName :: string

record LookupItem =
  item_type :: "CppType option"
  item_declaration :: "Symbol option"

text \<open>A use of a local symbol, with the document position of its line and column.\<close>

record Use =
  isInvalid :: bool
  use_position :: int

subsection \<open>The quick-fix interface\<close>

record CppRefactoringFile =
  tokenAt :: "int \<Rightarrow> Token"
  startOfToken :: "int \<Rightarrow> int"
  endOfToken :: "int \<Rightarrow> int"
  hasSelection :: bool
  selectionStart :: int
  selectionEnd :: int

text \<open>
  \<open>localUses\<close> is the hash of the local symbols (given by their names) to their uses,
  as the list of its entries in the order of iteration.
\<close>

record CppQuickFixInterface =
  path :: "AST list"
  currentFile :: CppRefactoringFile
  isCursorOn :: "int \<Rightarrow> bool"
  isCursorOnCore :: "CoreDeclaratorAST \<Rightarrow> bool"
  typeOfExpression :: "ExpressionAST option \<Rightarrow> LookupItem list"
  localUses :: "(string \<times> Use list) list"

subsection \<open>Operations\<close>

datatype Operation =
    SplitSimpleDeclarationOp DeclarationAST
  | AddBracesToControlStatementOp "StatementAST list" "StatementAST option" int
  | SplitIfStatementOp StatementAST ExpressionAST
  | ConvertNumericLiteralOp int int string
  | CompleteSwitchCaseStatementOp StatementAST "string list"
  | ExtractFunctionOperation int int FunctionDefinitionAST "string option"
                             "(string \<times> string) list"
  | ExtractLiteralAsParameterOp ExpressionAST FunctionDefinitionAST
  | ApplyDeclDefLinkOperation

record QuickFixOperation =
  priority :: int
  description :: string
  operation :: Operation

text \<open>
  Reading the path outside its bounds, which \<open>QList::at\<close> and \<open>QList::last\<close>
  do not allow, is the one way a rule of this file can fail instead of returning.
\<close>

datatype error = IndexOutOfRange

definition path_at :: "AST list \<Rightarrow> int \<Rightarrow> error + AST" where
  "path_at p i = (if 0 \<le> i \<and> i < int (length p) then Inr (p ! nat i) else Inl IndexOutOfRange)"

definition path_last :: "AST list \<Rightarrow> error + AST" where
  "path_last p = (if p = [] then Inl IndexOutOfRange else Inr (last p))"

subsection \<open>Library functions on digits\<close>

text \<open>\<open>std::isxdigit\<close> in the C locale.\<close>

definition isxdigit :: "char \<Rightarrow> bool" where
  "isxdigit c = (c \<in> set ''0123456789abcdefABCDEF'')"

text \<open>
  The value of a digit as \<open>strtoull\<close> reads it: \<open>0\<close> to \<open>9\<close>, then the letters of
  either case from ten on.
\<close>

definition digit_value :: "char \<Rightarrow> nat option" where
  "digit_value c =
     (let n = (of_char c :: nat) in
      if 48 \<le> n \<and> n \<le> 57 then Some (n - 48)
      else if 97 \<le> n \<and> n \<le> 122 then Some (n - 87)
      else if 65 \<le> n \<and> n \<le> 90 then Some (n - 55)
      else None)"

fun digits_value :: "nat \<Rightarrow> string \<Rightarrow> nat \<Rightarrow> nat option" where
  "digits_value b [] acc = Some acc"
| "digits_value b (c # cs) acc =
     (case digit_value c of
        None \<Rightarrow> None
      | Some d \<Rightarrow> if d < b then digits_value b cs (acc * b + d) else None)"

text \<open>
  \<open>unsigned long\<close> is taken with 64 bits (the LP64 platforms). \<open>QString::toULong\<close>
  on the spelling of a token, which holds no white space and no sign: the string must
  consist of digits of the base, at least one, and the value must fit the type; then
  \<open>valid\<close> is set and the value returned (\<open>Some\<close>), else \<open>valid\<close> is cleared
  (\<open>None\<close>). With base \<open>0\<close> the base follows the C convention: \<open>0x\<close> starts a
  hexadecimal number, any other leading \<open>0\<close> an octal one, and everything else is
  decimal.
\<close>

type_synonym ulong = "64 word"

definition toULong_digits :: "nat \<Rightarrow> string \<Rightarrow> ulong option" where
  "toULong_digits b s =
     (if s = [] then None
      else case digits_value b s 0 of
             None \<Rightarrow> None
           | Some n \<Rightarrow> if n < 2 ^ 64 then Some (of_nat n) else None)"

definition toULong :: "string \<Rightarrow> nat \<Rightarrow> ulong option" where
  "toULong s base =
     (if base = 0 then
        (if take 2 s = ''0x'' \<or> take 2 s = ''0X'' then toULong_digits 16 (drop 2 s)
         else if take 1 s = ''0'' then toULong_digits 8 s
         else toULong_digits 10 s)
      else toULong_digits base s)"

text \<open>
  The conversions \<open>%lX\<close>, \<open>%lo\<close> and \<open>%lu\<close> of \<open>QString::asprintf\<close>: the digits
  of the value in the base, most significant first, in upper case, without leading zeros,
  and the single digit \<open>0\<close> for the value zero.
\<close>

definition digit_char :: "nat \<Rightarrow> char" where
  "digit_char d = ''0123456789ABCDEF'' ! d"

function digits_of :: "nat \<Rightarrow> nat \<Rightarrow> string" where
  "digits_of b n =
     (if b < 2 \<or> n < b then [digit_char n] else digits_of b (n div b) @ [digit_char (n mod b)])"
  by pat_completeness auto
termination
  by (relation "measure (\<lambda>(b, n). n)") auto

declare digits_of.simps [simp del]

definition asprintf_lX :: "ulong \<Rightarrow> string" where
  "asprintf_lX v = digits_of 16 (unat v)"

definition asprintf_lo :: "ulong \<Rightarrow> string" where
  "asprintf_lo v = digits_of 8 (unat v)"

definition asprintf_lu :: "ulong \<Rightarrow> string" where
  "asprintf_lu v = digits_of 10 (unat v)"

text \<open>
  \<open>std::bitset<64>::to_string\<close>: the 64 bits, most significant first. The regular
  expression \<open>^[0]*\<close> matches the leading zeros, which \<open>remove\<close> deletes.
\<close>

definition bitset_to_string :: "ulong \<Rightarrow> string" where
  "bitset_to_string v = map (\<lambda>i. if bit v i then CHR ''1'' else CHR ''0'') (rev [0..<64])"

definition remove_leading_zeros :: "string \<Rightarrow> string" where
  "remove_leading_zeros s = dropWhile (\<lambda>c. c = CHR ''0'') s"

subsection \<open>ConvertNumericLiteral\<close>

text \<open>
  The loop that removes the trailing \<open>L\<close>, \<open>U\<close> and the like: it steps back over
  the characters that are no hexadecimal digits.
\<close>

fun strip_suffix :: "string \<Rightarrow> nat \<Rightarrow> nat" where
  "strip_suffix spell 0 = 0"
| "strip_suffix spell (Suc n) =
     (if \<not> isxdigit (spell ! n) then strip_suffix spell n else Suc n)"

definition ConvertNumericLiteralOp_new ::
  "int \<Rightarrow> int \<Rightarrow> string \<Rightarrow> string \<Rightarrow> int \<Rightarrow> QuickFixOperation" where
  "ConvertNumericLiteralOp_new start end replacement descr prio =
     \<lparr>priority = prio, description = descr,
      operation = ConvertNumericLiteralOp start end replacement\<rparr>"

text \<open>
  The second half of \<open>doMatch\<close>: once the value is known, one operation for every
  radix but the literal's own, each replacing the text from \<open>start\<close> to
  \<open>start + numberLength\<close>.
\<close>

definition ConvertNumericLiteral_operations ::
  "int \<Rightarrow> int \<Rightarrow> NumericLiteral \<Rightarrow> nat \<Rightarrow> ulong \<Rightarrow> QuickFixOperation list" where
  "ConvertNumericLiteral_operations prio start numeric numberLength v =
     (let str = chars numeric;
          isBinary = (numberLength > 2 \<and> str ! 0 = CHR ''0''
                      \<and> (str ! 1 = CHR ''b'' \<or> str ! 1 = CHR ''B''));
          isOctal = (numberLength \<ge> 2 \<and> str ! 0 = CHR ''0''
                     \<and> (of_char (str ! 1) :: nat) \<ge> of_char CHR ''0''
                     \<and> (of_char (str ! 1) :: nat) \<le> of_char CHR ''7'');
          isDecimal = (\<not> (isBinary \<or> isOctal \<or> isHex numeric));
          end = start + int numberLength
      in (if \<not> isHex numeric
          then [ConvertNumericLiteralOp_new start end (''0x'' @ asprintf_lX v)
                  ''Convert to Hexadecimal'' prio]
          else [])
         @ (if \<not> isOctal
            then [ConvertNumericLiteralOp_new start end (''0'' @ asprintf_lo v)
                    ''Convert to Octal'' prio]
            else [])
         @ (if \<not> isDecimal
            then [ConvertNumericLiteralOp_new start end (asprintf_lu v)
                    ''Convert to Decimal'' prio]
            else [])
         @ (if \<not> isBinary
            then [ConvertNumericLiteralOp_new start end
                    (''0b'' @ (if v = 0 then ''0''
                               else remove_leading_zeros (bitset_to_string v)))
                    ''Convert to Binary'' prio]
            else []))"

definition ConvertNumericLiteral_doMatch ::
  "CppQuickFixInterface \<Rightarrow> error + QuickFixOperation list" where
  "ConvertNumericLiteral_doMatch interface =
     (let path = path interface; file = currentFile interface in
      if path = [] then Inr []
      else case path_last path of
        Inl e \<Rightarrow> Inl e
      | Inr lastAst \<Rightarrow>
      (case asNumericLiteral lastAst of
        None \<Rightarrow> Inr []
      | Some literal \<Rightarrow>
        let token = tokenAt file (literal_token literal) in
        if kind token \<noteq> T_NUMERIC_LITERAL then Inr []
        else
          let numeric = number token in
          if isDouble numeric \<or> isFloat numeric then Inr []
          else
            let spell = chars numeric;
                numberLength = strip_suffix spell (length spell)
            in
            if numberLength < 1 then Inr []
            else
              let x = take numberLength spell in
              (case (if take 2 x = ''0b'' \<or> take 2 x = ''0B''
                     then toULong (drop 2 x) 2 else toULong x 0) of
                 None \<Rightarrow> Inr []
               | Some v \<Rightarrow>
                 let prio = int (length path) - 1;
                     start = startOfToken file (literal_token literal)
                 in Inr (ConvertNumericLiteral_operations prio start numeric numberLength v))))"

text \<open>
  What the rule is specified to do, in the words of its description. The digits of a
  literal are its spelling without the trailing suffix characters; the value of the
  digits is read in base two after \<open>0b\<close> and by the C convention otherwise; the radix
  of the digits is told by their prefix.
\<close>

datatype Radix = Hexadecimal | Octal | Decimal | Binary

definition digits_part :: "NumericLiteral \<Rightarrow> string" where
  "digits_part numeric =
     take (strip_suffix (chars numeric) (length (chars numeric))) (chars numeric)"

definition numeric_value :: "string \<Rightarrow> ulong option" where
  "numeric_value x =
     (if take 2 x = ''0b'' \<or> take 2 x = ''0B'' then toULong (drop 2 x) 2 else toULong x 0)"

definition radix_of :: "string \<Rightarrow> Radix" where
  "radix_of x =
     (if take 2 x = ''0x'' \<or> take 2 x = ''0X'' then Hexadecimal
      else if take 2 x = ''0b'' \<or> take 2 x = ''0B'' then Binary
      else if take 1 x = ''0'' \<and> 2 \<le> length x then Octal
      else Decimal)"

fun representation :: "Radix \<Rightarrow> ulong \<Rightarrow> string" where
  "representation Hexadecimal v = ''0x'' @ asprintf_lX v"
| "representation Octal v = ''0'' @ asprintf_lo v"
| "representation Decimal v = asprintf_lu v"
| "representation Binary v =
     ''0b'' @ (if v = 0 then ''0'' else remove_leading_zeros (bitset_to_string v))"

fun radix_description :: "Radix \<Rightarrow> string" where
  "radix_description Hexadecimal = ''Convert to Hexadecimal''"
| "radix_description Octal = ''Convert to Octal''"
| "radix_description Decimal = ''Convert to Decimal''"
| "radix_description Binary = ''Convert to Binary''"

text \<open>The numeric literal \<open>numeric\<close> is the last node of the path.\<close>

definition literal_under_cursor :: "CppQuickFixInterface \<Rightarrow> NumericLiteral \<Rightarrow> bool" where
  "literal_under_cursor interface numeric =
     (path interface \<noteq> [] \<and>
      (case asNumericLiteral (last (path interface)) of
         None \<Rightarrow> False
       | Some literal \<Rightarrow>
           tokenAt (currentFile interface) (literal_token literal)
             = \<lparr>kind = T_NUMERIC_LITERAL, number = numeric\<rparr>))"

definition literal_start :: "CppQuickFixInterface \<Rightarrow> int" where
  "literal_start interface =
     (case asNumericLiteral (last (path interface)) of
        None \<Rightarrow> 0
      | Some literal \<Rightarrow> startOfToken (currentFile interface) (literal_token literal))"

text \<open>
  The conversion of the literal under the cursor to radix \<open>r\<close>: it replaces the digits,
  from the start of the literal, by the representation of the value.
\<close>

definition conversion ::
  "CppQuickFixInterface \<Rightarrow> NumericLiteral \<Rightarrow> ulong \<Rightarrow> Radix \<Rightarrow> QuickFixOperation" where
  "conversion interface numeric v r =
     \<lparr>priority = int (length (path interface)) - 1,
      description = radix_description r,
      operation = ConvertNumericLiteralOp (literal_start interface)
                    (literal_start interface + int (length (digits_part numeric)))
                    (representation r v)\<rparr>"

text \<open>The replacement text of the first operation with the given description, if any.\<close>

fun replacement_of :: "string \<Rightarrow> QuickFixOperation list \<Rightarrow> string option" where
  "replacement_of d [] = None"
| "replacement_of d (op # ops) =
     (if description op = d
      then (case operation op of
              ConvertNumericLiteralOp s e r \<Rightarrow> Some r
            | _ \<Rightarrow> None)
      else replacement_of d ops)"

definition convert_literal :: "string \<Rightarrow> CppQuickFixInterface \<Rightarrow> string option" where
  "convert_literal d interface =
     (case ConvertNumericLiteral_doMatch interface of
        Inl e \<Rightarrow> None
      | Inr ops \<Rightarrow> replacement_of d ops)"

text \<open>An interface with nothing but the numeric literal \<open>numeric\<close> at position \<open>p\<close>.\<close>

definition literal_interface :: "NumericLiteral \<Rightarrow> int \<Rightarrow> CppQuickFixInterface" where
  "literal_interface numeric p =
     \<lparr>path = [OtherAST, Expression (NumericLiteralAST 1)],
      currentFile = \<lparr>tokenAt = (\<lambda>t. \<lparr>kind = T_NUMERIC_LITERAL, number = numeric\<rparr>),
                     startOfToken = (\<lambda>t. p), endOfToken = (\<lambda>t. p + int (length (chars numeric))),
                     hasSelection = False, selectionStart = p, selectionEnd = p\<rparr>,
      isCursorOn = (\<lambda>t. t = 1), isCursorOnCore = (\<lambda>c. False),
      typeOfExpression = (\<lambda>e. []), localUses = []\<rparr>"

definition integer_literal :: "string \<Rightarrow> bool \<Rightarrow> NumericLiteral" where
  "integer_literal s h = \<lparr>chars = s, isHex = h, isDouble = False, isFloat = False\<rparr>"

subsection \<open>SplitSimpleDeclaration\<close>

fun specifier_loop :: "SpecifierAST list \<Rightarrow> bool" where
  "specifier_loop [] = True"
| "specifier_loop (specifier # it) =
     (if asSpecifier specifier = EnumSpecifier \<or> asSpecifier specifier = ClassSpecifier
      then False
      else specifier_loop it)"

fun checkDeclarationForSplit :: "DeclarationAST \<Rightarrow> bool" where
  "checkDeclarationForSplit (SimpleDeclarationAST specs tx decls semicolon) =
     (if semicolon = 0 then False
      else if specs = [] then False
      else if \<not> specifier_loop specs then False
      else decls \<noteq> [] \<and> tl decls \<noteq> [])"
| "checkDeclarationForSplit OtherDeclarationAST = False"

text \<open>The first token of a specifier list, and the token after its last one.\<close>

fun firstToken :: "SpecifierAST list \<Rightarrow> int" where
  "firstToken [] = 0"
| "firstToken (specifier # it) = spec_firstToken specifier"

fun lastToken :: "SpecifierAST list \<Rightarrow> int" where
  "lastToken [] = 0"
| "lastToken [specifier] = spec_lastToken specifier"
| "lastToken (specifier # it) = lastToken it"

definition SplitSimpleDeclarationOp_new :: "int \<Rightarrow> DeclarationAST \<Rightarrow> QuickFixOperation" where
  "SplitSimpleDeclarationOp_new prio decl =
     \<lparr>priority = prio, description = ''Split Declaration'',
      operation = SplitSimpleDeclarationOp decl\<rparr>"

function SplitSimpleDeclaration_loop ::
  "CppQuickFixInterface \<Rightarrow> CoreDeclaratorAST option \<Rightarrow> int \<Rightarrow> error + QuickFixOperation list"
where
  "SplitSimpleDeclaration_loop interface core_declarator' index =
     (if index = -1 then Inr []
      else case path_at (path interface) index of
        Inl e \<Rightarrow> Inl e
      | Inr node \<Rightarrow>
        (case asCoreDeclarator node of
           Some coreDecl \<Rightarrow> SplitSimpleDeclaration_loop interface (Some coreDecl) (index - 1)
         | None \<Rightarrow>
           (case asSimpleDeclaration node of
              Some simpleDecl \<Rightarrow>
                if checkDeclarationForSplit simpleDecl then
                  let file = currentFile interface;
                      cursorPosition = selectionStart file;
                      startOfDeclSpecifier =
                        startOfToken file (firstToken (decl_specifier_list simpleDecl));
                      endOfDeclSpecifier =
                        endOfToken file (lastToken (decl_specifier_list simpleDecl) - 1)
                  in
                  if cursorPosition \<ge> startOfDeclSpecifier \<and> cursorPosition \<le> endOfDeclSpecifier
                  then Inr [SplitSimpleDeclarationOp_new index simpleDecl]
                  else if (case core_declarator' of
                             None \<Rightarrow> False
                           | Some c \<Rightarrow> isCursorOnCore interface c)
                  then Inr [SplitSimpleDeclarationOp_new index simpleDecl]
                  else Inr []
                else Inr []
            | None \<Rightarrow> SplitSimpleDeclaration_loop interface core_declarator' (index - 1))))"
  by pat_completeness auto
termination
  by (relation "measure (\<lambda>(interface, core_declarator', index). nat (index + 1))")
     (auto simp: path_at_def split: if_splits)

declare SplitSimpleDeclaration_loop.simps [simp del]

definition SplitSimpleDeclaration_doMatch ::
  "CppQuickFixInterface \<Rightarrow> error + QuickFixOperation list" where
  "SplitSimpleDeclaration_doMatch interface =
     SplitSimpleDeclaration_loop interface None (int (length (path interface)) - 1)"

subsection \<open>AddBracesToControlStatement\<close>

text \<open>The statement types the helper template is instantiated with.\<close>

datatype ControlStatement =
  IfStatement | WhileStatement | ForStatement | RangeBasedForStatement | DoStatement

fun asControlStatement :: "ControlStatement \<Rightarrow> AST \<Rightarrow> StatementAST option" where
  "asControlStatement IfStatement node = asIfStatement node"
| "asControlStatement WhileStatement node = asWhileStatement node"
| "asControlStatement ForStatement node = asForStatement node"
| "asControlStatement RangeBasedForStatement node = asRangeBasedForStatement node"
| "asControlStatement DoStatement node = asDoStatement node"

fun triggerToken :: "ControlStatement \<Rightarrow> StatementAST \<Rightarrow> int" where
  "triggerToken IfStatement statement' = if_token statement'"
| "triggerToken WhileStatement statement' = while_token statement'"
| "triggerToken DoStatement statement' = do_token statement'"
| "triggerToken ForStatement statement' = for_token statement'"
| "triggerToken RangeBasedForStatement statement' = for_token statement'"

text \<open>
  \<open>stmt->statement && !stmt->statement->asCompoundStatement()\<close>: the body is there
  and is no compound statement.
\<close>

definition single_statement_body :: "StatementAST option \<Rightarrow> bool" where
  "single_statement_body body =
     (case body of None \<Rightarrow> False | Some b \<Rightarrow> asCompoundStatement b = None)"

text \<open>
  The loop over the chain of else branches: \<open>elseStmt\<close> and \<open>elseToken\<close> are the
  loop variables, and every further \<open>if\<close> of the chain with a single statement as body
  is appended to \<open>statements\<close>. It returns the statements with the last values of the
  loop variables.
\<close>

fun else_chain ::
  "StatementAST option \<Rightarrow> int \<Rightarrow> StatementAST list
     \<Rightarrow> StatementAST list \<times> StatementAST option \<times> int" where
  "else_chain None elseToken statements = (statements, None, elseToken)"
| "else_chain (Some (IfStatementAST s e it rp st et es)) elseToken statements =
     else_chain es et
       (if single_statement_body st
        then statements @ [IfStatementAST s e it rp st et es]
        else statements)"
| "else_chain (Some elseStmt) elseToken statements = (statements, Some elseStmt, elseToken)"

definition AddBracesToControlStatementOp_new ::
  "StatementAST list \<Rightarrow> StatementAST option \<Rightarrow> int \<Rightarrow> QuickFixOperation" where
  "AddBracesToControlStatementOp_new statements elseStatement elseToken =
     \<lparr>priority = 0, description = ''Add Curly Braces'',
      operation = AddBracesToControlStatementOp statements elseStatement elseToken\<rparr>"

definition checkControlStatementsHelper ::
  "ControlStatement \<Rightarrow> CppQuickFixInterface \<Rightarrow> error + (bool \<times> QuickFixOperation list)" where
  "checkControlStatementsHelper Statement' interface =
     (case path_last (path interface) of
        Inl e \<Rightarrow> Inl e
      | Inr node \<Rightarrow>
        (case asControlStatement Statement' node of
           None \<Rightarrow> Inr (False, [])
         | Some statement' \<Rightarrow>
           let statements =
                 (if isCursorOn interface (triggerToken Statement' statement')
                     \<and> single_statement_body (statement statement')
                  then [statement'] else []);
               (statements, elseStmt, elseToken) =
                 (if Statement' = IfStatement
                  then (case else_chain (else_statement statement') (else_token statement')
                               statements of
                          (statements, elseStmt, elseToken) \<Rightarrow>
                            (case elseStmt of
                               None \<Rightarrow> (statements, None, elseToken)
                             | Some es \<Rightarrow>
                                 if asIfStatement (Statement es) \<noteq> None
                                    \<or> asCompoundStatement es \<noteq> None
                                 then (statements, None, 0)
                                 else (statements, Some es, elseToken)))
                  else (statements, None, 0))
           in Inr (True,
                   if statements \<noteq> [] \<or> elseStmt \<noteq> None
                   then [AddBracesToControlStatementOp_new statements elseStmt elseToken]
                   else [])))"

text \<open>
  The fold expression \<open>(... || checkControlStatementsHelper<Statements>(...))\<close>: the
  helpers are tried in turn until one returns true.
\<close>

fun checkControlStatements ::
  "ControlStatement list \<Rightarrow> CppQuickFixInterface \<Rightarrow> error + QuickFixOperation list" where
  "checkControlStatements [] interface = Inr []"
| "checkControlStatements (Statement' # Statements) interface =
     (case checkControlStatementsHelper Statement' interface of
        Inl e \<Rightarrow> Inl e
      | Inr (matched, ops) \<Rightarrow>
          if matched then Inr ops
          else (case checkControlStatements Statements interface of
                  Inl e \<Rightarrow> Inl e
                | Inr ops' \<Rightarrow> Inr (ops @ ops')))"

definition AddBracesToControlStatement_doMatch ::
  "CppQuickFixInterface \<Rightarrow> error + QuickFixOperation list" where
  "AddBracesToControlStatement_doMatch interface =
     (if path interface = [] then Inr []
      else checkControlStatements
             [IfStatement, WhileStatement, ForStatement, RangeBasedForStatement, DoStatement]
             interface)"

subsection \<open>SplitIfStatement\<close>

text \<open>The first loop: the innermost \<open>if\<close> statement of the path, with its index.\<close>

function SplitIfStatement_pattern :: "AST list \<Rightarrow> int \<Rightarrow> error + StatementAST option \<times> int" where
  "SplitIfStatement_pattern path' index =
     (if index = -1 then Inr (None, index)
      else case path_at path' index of
        Inl e \<Rightarrow> Inl e
      | Inr node \<Rightarrow>
        (case asIfStatement node of
           Some stmt \<Rightarrow> Inr (Some stmt, index)
         | None \<Rightarrow> SplitIfStatement_pattern path' (index - 1)))"
  by pat_completeness auto
termination
  by (relation "measure (\<lambda>(path', index). nat (index + 1))")
     (auto simp: path_at_def split: if_splits)

declare SplitIfStatement_pattern.simps [simp del]

definition SplitIfStatementOp_new ::
  "int \<Rightarrow> StatementAST \<Rightarrow> ExpressionAST \<Rightarrow> QuickFixOperation" where
  "SplitIfStatementOp_new prio pattern condition' =
     \<lparr>priority = prio, description = ''Split if Statement'',
      operation = SplitIfStatementOp pattern condition'\<rparr>"

text \<open>
  The second loop, over the nodes below the \<open>if\<close> statement. \<open>splitKind\<close> is \<open>None\<close>
  as long as the variable of the source holds \<open>0\<close>.
\<close>

function SplitIfStatement_chain ::
  "CppQuickFixInterface \<Rightarrow> StatementAST \<Rightarrow> TokenKind option \<Rightarrow> int
     \<Rightarrow> error + QuickFixOperation list" where
  "SplitIfStatement_chain interface pattern splitKind index =
     (if \<not> (index < int (length (path interface))) then Inr []
      else case path_at (path interface) index of
        Inl e \<Rightarrow> Inl e
      | Inr node \<Rightarrow>
        (case asBinaryExpression node of
           None \<Rightarrow> Inr []
         | Some condition' \<Rightarrow>
           let binaryToken = tokenAt (currentFile interface) (binary_op_token condition');
               accepted =
                 (case splitKind of
                    None \<Rightarrow>
                      if kind binaryToken \<noteq> T_AMPER_AMPER \<and> kind binaryToken \<noteq> T_PIPE_PIPE
                      then None
                      else if kind binaryToken = T_AMPER_AMPER \<and> else_statement pattern \<noteq> None
                      then None
                      else Some (kind binaryToken)
                  | Some k \<Rightarrow> if k \<noteq> kind binaryToken then None else Some k)
           in (case accepted of
                 None \<Rightarrow> Inr []
               | Some k \<Rightarrow>
                   if isCursorOn interface (binary_op_token condition')
                   then Inr [SplitIfStatementOp_new index pattern condition']
                   else SplitIfStatement_chain interface pattern (Some k) (index + 1))))"
  by pat_completeness auto
termination
  by (relation "measure (\<lambda>(interface, pattern, splitKind, index).
                           nat (int (length (path interface)) - index))")
     auto

declare SplitIfStatement_chain.simps [simp del]

definition SplitIfStatement_doMatch ::
  "CppQuickFixInterface \<Rightarrow> error + QuickFixOperation list" where
  "SplitIfStatement_doMatch interface =
     (case SplitIfStatement_pattern (path interface) (int (length (path interface)) - 1) of
        Inl e \<Rightarrow> Inl e
      | Inr (pattern, index) \<Rightarrow>
        (case pattern of
           None \<Rightarrow> Inr []
         | Some pattern' \<Rightarrow>
             if statement pattern' = None then Inr []
             else SplitIfStatement_chain interface pattern' None (index + 1)))"

text \<open>
  The kind of the operator of the binary expression at index \<open>m\<close> of the path, if the
  node there is a binary expression.
\<close>

definition kind_at :: "CppQuickFixInterface \<Rightarrow> int \<Rightarrow> TokenKind option" where
  "kind_at interface m =
     (case asBinaryExpression (path interface ! nat m) of
        None \<Rightarrow> None
      | Some c \<Rightarrow> Some (kind (tokenAt (currentFile interface) (binary_op_token c))))"

text \<open>
  An interface for examples: the path, the tokens and the tokens the cursor is on are
  given, there is no selection, and token \<open>t\<close> stands at position \<open>t\<close>.
\<close>

definition token_of_kind :: "TokenKind \<Rightarrow> Token" where
  "token_of_kind k =
     \<lparr>kind = k, number = \<lparr>chars = [], isHex = False, isDouble = False, isFloat = False\<rparr>\<rparr>"

definition interface_of ::
  "AST list \<Rightarrow> (int \<Rightarrow> Token) \<Rightarrow> (int \<Rightarrow> bool) \<Rightarrow> CppQuickFixInterface" where
  "interface_of p tokens cursor =
     \<lparr>path = p,
      currentFile = \<lparr>tokenAt = tokens, startOfToken = (\<lambda>t. t), endOfToken = (\<lambda>t. t + 1),
                     hasSelection = False, selectionStart = 0, selectionEnd = 0\<rparr>,
      isCursorOn = cursor, isCursorOnCore = (\<lambda>c. False),
      typeOfExpression = (\<lambda>e. []), localUses = []\<rparr>"

text \<open>
  The else chain of an \<open>if\<close> statement needs braces when one of its further \<open>if\<close>
  statements has a single statement as body, or when its trailing else branch is neither
  an \<open>if\<close> nor a compound statement.
\<close>

fun else_chain_needs_braces :: "StatementAST option \<Rightarrow> bool" where
  "else_chain_needs_braces None = False"
| "else_chain_needs_braces (Some (IfStatementAST s e it rp st et es)) =
     (single_statement_body st \<or> else_chain_needs_braces es)"
| "else_chain_needs_braces (Some elseStmt) = (asCompoundStatement elseStmt = None)"

text \<open>
  The operations offered are needed: there is at most one, it holds a statement or a
  trailing else branch, its statements have single statements as bodies, and its else
  branch is neither an \<open>if\<close> nor a compound statement.
\<close>

definition braces_needed :: "QuickFixOperation list \<Rightarrow> bool" where
  "braces_needed ops =
     (\<forall>op \<in> set ops. \<exists>sts e tok.
         ops = [AddBracesToControlStatementOp_new sts e tok]
       \<and> (sts \<noteq> [] \<or> e \<noteq> None)
       \<and> (\<forall>s \<in> set sts. single_statement_body (statement s))
       \<and> (\<forall>x. e = Some x \<longrightarrow> asIfStatement (Statement x) = None \<and> asCompoundStatement x = None))"


subsection \<open>CompleteSwitchCaseStatement\<close>

fun findEnum :: "LookupItem list \<Rightarrow> Enum option" where
  "findEnum [] = None"
| "findEnum (result # results) =
     (let fst' = item_type result;
          type' = (case item_declaration result of
                     Some d \<Rightarrow> symbol_type d
                   | None \<Rightarrow> fst')
      in case type' of
           None \<Rightarrow> findEnum results
         | Some (EnumType e) \<Rightarrow> Some e
         | Some (NamedType referenceName' con) \<Rightarrow>
             (case con of
                None \<Rightarrow> findEnum results
              | Some enums \<Rightarrow>
                  (case find (\<lambda>e. enum_name e = Some referenceName') enums of
                     Some e \<Rightarrow> Some e
                   | None \<Rightarrow> findEnum results))
         | Some OtherType \<Rightarrow> findEnum results)"

definition conditionEnum :: "CppQuickFixInterface \<Rightarrow> StatementAST \<Rightarrow> Enum option" where
  "conditionEnum interface statement' =
     findEnum (typeOfExpression interface (condition statement'))"

text \<open>
  The statements below a statement, in the order in which \<open>accept0\<close> visits them.
\<close>

fun option_list :: "'a option \<Rightarrow> 'a list" where
  "option_list None = []"
| "option_list (Some x) = [x]"

fun child_statements :: "StatementAST \<Rightarrow> StatementAST list" where
  "child_statements (CompoundStatementAST s e lb sl) = sl"
| "child_statements (IfStatementAST s e it rp st et es) = option_list st @ option_list es"
| "child_statements (WhileStatementAST s e wt rp st) = option_list st"
| "child_statements (ForStatementAST s e ft i rp st) = option_list i @ option_list st"
| "child_statements (RangeBasedForStatementAST s e ft rp st) = option_list st"
| "child_statements (ForeachStatementAST s e st) = option_list st"
| "child_statements (DoStatementAST s e dt st wt) = option_list st"
| "child_statements (SwitchStatementAST s e c st sy) = option_list st"
| "child_statements (CaseStatementAST s e ex st) = option_list st"
| "child_statements (TryBlockStatementAST s e st cl) = option_list st @ cl"
| "child_statements (CatchClauseAST s e st) = option_list st"
| "child_statements (LabeledStatementAST s e st) = option_list st"
| "child_statements (DeclarationStatementAST s e d) = []"
| "child_statements (ReturnStatementAST s e ex) = []"
| "child_statements (ExpressionStatementAST s e ex) = []"

fun asCaseStatement :: "StatementAST \<Rightarrow> StatementAST option" where
  "asCaseStatement (CaseStatementAST s e ex st) = Some (CaseStatementAST s e ex st)"
| "asCaseStatement _ = None"

text \<open>
  The name a case label stands for: the label is an id expression, and the first
  candidate found for it has a declaration.
\<close>

definition case_value :: "CppQuickFixInterface \<Rightarrow> ExpressionAST option \<Rightarrow> string list" where
  "case_value interface csExpression =
     (case csExpression of
        None \<Rightarrow> []
      | Some e \<Rightarrow>
          (case e of
             IdExpressionAST t \<Rightarrow>
               (case typeOfExpression interface (Some e) of
                  [] \<Rightarrow> []
                | candidate # candidates \<Rightarrow>
                    (case item_declaration candidate of
                       None \<Rightarrow> []
                     | Some decl \<Rightarrow> [fullyQualifiedName decl]))
           | _ \<Rightarrow> []))"

text \<open>
  \<open>CaseStatementCollector\<close>: the state is \<open>foundCaseStatementLevel\<close> with the
  \<open>values\<close>. \<open>preVisit\<close> lets the visitor into a case statement, and into any other
  node only as long as no case statement has been found.
\<close>

function CaseStatementCollector_accept ::
  "CppQuickFixInterface \<Rightarrow> StatementAST \<Rightarrow> bool \<times> string list \<Rightarrow> bool \<times> string list" where
  "CaseStatementCollector_accept interface ast (foundCaseStatementLevel, values) =
     (case asCaseStatement ast of
        Some cs \<Rightarrow>
          fold (CaseStatementCollector_accept interface) (child_statements ast)
            (True, values @ case_value interface (expression cs))
      | None \<Rightarrow>
          if foundCaseStatementLevel then (foundCaseStatementLevel, values)
          else fold (CaseStatementCollector_accept interface) (child_statements ast)
                 (foundCaseStatementLevel, values))"
  by pat_completeness auto
termination
proof -
  have le: "c \<in> set xs \<Longrightarrow> size c \<le> size_list size xs" for c :: StatementAST and xs
    by (induction xs) auto
  have ol: "c \<in> set (option_list x) \<Longrightarrow> size c \<le> size_option size x"
    for c :: StatementAST and x
    by (cases x) auto
  have sz: "c \<in> set (child_statements s) \<Longrightarrow> size c < size s" for c s
    by (cases s) (auto dest: ol le simp: less_Suc_eq_le)
  show ?thesis
    by (relation "measure (\<lambda>(interface, ast, st). size ast)") (auto dest: sz)
qed

declare CaseStatementCollector_accept.simps [simp del]

definition caseValues :: "CppQuickFixInterface \<Rightarrow> StatementAST \<Rightarrow> string list" where
  "caseValues interface ast = snd (CaseStatementCollector_accept interface ast (False, []))"

text \<open>The names of the members of the enum that are declarations, in their order.\<close>

fun member_values :: "string option list \<Rightarrow> string list" where
  "member_values [] = []"
| "member_values (None # ms) = member_values ms"
| "member_values (Some name # ms) = name # member_values ms"

definition CompleteSwitchCaseStatementOp_new ::
  "int \<Rightarrow> StatementAST \<Rightarrow> string list \<Rightarrow> QuickFixOperation" where
  "CompleteSwitchCaseStatementOp_new prio compoundStatement values =
     \<lparr>priority = prio, description = ''Complete Switch Statement'',
      operation = CompleteSwitchCaseStatementOp compoundStatement values\<rparr>"

function CompleteSwitchCaseStatement_loop ::
  "CppQuickFixInterface \<Rightarrow> int \<Rightarrow> error + QuickFixOperation list" where
  "CompleteSwitchCaseStatement_loop interface depth =
     (if \<not> (depth \<ge> 0) then Inr []
      else case path_at (path interface) depth of
        Inl e \<Rightarrow> Inl e
      | Inr ast \<Rightarrow>
        (case asSwitchStatement ast of
           Some switchStatement \<Rightarrow>
             (case statement switchStatement of
                None \<Rightarrow> Inr []
              | Some body \<Rightarrow>
                  if \<not> has_symbol switchStatement then Inr []
                  else (case asCompoundStatement body of
                    None \<Rightarrow> Inr []
                  | Some compoundStatement \<Rightarrow>
                      (case conditionEnum interface switchStatement of
                         Some e \<Rightarrow>
                           (let values = member_values (members e);
                                usedValues = caseValues interface switchStatement;
                                values = fold removeAll usedValues values
                            in if values \<noteq> []
                               then Inr [CompleteSwitchCaseStatementOp_new depth
                                           compoundStatement values]
                               else Inr [])
                       | None \<Rightarrow> Inr [])))
         | None \<Rightarrow> CompleteSwitchCaseStatement_loop interface (depth - 1)))"
  by pat_completeness auto
termination
  by (relation "measure (\<lambda>(interface, depth). nat (depth + 1))") auto

declare CompleteSwitchCaseStatement_loop.simps [simp del]

definition CompleteSwitchCaseStatement_doMatch ::
  "CppQuickFixInterface \<Rightarrow> error + QuickFixOperation list" where
  "CompleteSwitchCaseStatement_doMatch interface =
     (if path interface = [] then Inr []
      else CompleteSwitchCaseStatement_loop interface (int (length (path interface)) - 1))"



subsection \<open>ExtractLiteralAsParameter\<close>

function ExtractLiteralAsParameter_function ::
  "AST list \<Rightarrow> int \<Rightarrow> error + FunctionDefinitionAST option" where
  "ExtractLiteralAsParameter_function path' i =
     (case path_at path' i of
        Inl e \<Rightarrow> Inl e
      | Inr node \<Rightarrow>
        (case asFunctionDefinition node of
           Some function \<Rightarrow> Inr (Some function)
         | None \<Rightarrow>
             if asLambdaExpression node \<noteq> None then Inr None
             else if i - 1 < 0 then Inr None
             else ExtractLiteralAsParameter_function path' (i - 1)))"
  by pat_completeness auto
termination
  by (relation "measure (\<lambda>(path', i). nat i)") auto

declare ExtractLiteralAsParameter_function.simps [simp del]

definition ExtractLiteralAsParameterOp_new ::
  "int \<Rightarrow> ExpressionAST \<Rightarrow> FunctionDefinitionAST \<Rightarrow> QuickFixOperation" where
  "ExtractLiteralAsParameterOp_new prio literal function =
     \<lparr>priority = prio, description = ''Extract Constant as Function Parameter'',
      operation = ExtractLiteralAsParameterOp literal function\<rparr>"

definition ExtractLiteralAsParameter_doMatch ::
  "CppQuickFixInterface \<Rightarrow> error + QuickFixOperation list" where
  "ExtractLiteralAsParameter_doMatch interface =
     (let path = path interface in
      if length path < 2 then Inr []
      else case path_last path of
        Inl e \<Rightarrow> Inl e
      | Inr lastAst \<Rightarrow>
        (case (case asNumericLiteral lastAst of
                 Some l \<Rightarrow> Some l
               | None \<Rightarrow>
                   (case asStringLiteral lastAst of
                      Some l \<Rightarrow> Some l
                    | None \<Rightarrow> asBoolLiteral lastAst)) of
           None \<Rightarrow> Inr []
         | Some literal \<Rightarrow>
           (case ExtractLiteralAsParameter_function path (int (length path) - 2) of
              Inl e \<Rightarrow> Inl e
            | Inr None \<Rightarrow> Inr []
            | Inr (Some function) \<Rightarrow>
                (case postfix_declarator_list (fd_declarator function) of
                   [] \<Rightarrow> Inr []
                 | value # declaratorList \<Rightarrow>
                     if (case value of
                           FunctionDeclaratorAST clause \<Rightarrow>
                             (case clause of
                                None \<Rightarrow> False
                              | Some c \<Rightarrow> dot_dot_dot_token c \<noteq> 0)
                         | ArrayDeclaratorAST \<Rightarrow> False)
                     then Inr []
                     else
                       let prio = int (length path) - 1
                       in Inr [ExtractLiteralAsParameterOp_new prio literal function]))))"

subsection \<open>ExtractFunction\<close>

text \<open>
  \<open>assembleDeclarationData\<close>: the name of a declarator with the text of its
  declaration, or the pair of two empty strings. The specifiers are given by their text.
\<close>

definition assembleDeclarationData :: "string \<Rightarrow> DeclaratorAST \<Rightarrow> string \<times> string" where
  "assembleDeclarationData specifiers decltr =
     (case core_declarator decltr of
        None \<Rightarrow> ([], [])
      | Some core \<Rightarrow>
          (case core of
             NestedDeclaratorAST \<Rightarrow> ([], [])
           | DeclaratorIdAST id_name \<Rightarrow>
               (case id_name of
                  None \<Rightarrow> ([], [])
                | Some name \<Rightarrow>
                    if decltrText decltr \<noteq> []
                    then (name,
                          if CHR '' '' \<notin> set (decltrText decltr)
                          then specifiers @ '' '' @ decltrText decltr
                          else specifiers @ decltrText decltr)
                    else ([], []))))"

text \<open>
  The state of a \<open>FunctionExtractionAnalyser\<close>. \<open>m_knownDecls\<close> is the hash from
  the names seen to their declarations.
\<close>

record FunctionExtractionAnalyser =
  m_done :: bool
  m_failed :: bool
  m_selStart :: int
  m_selEnd :: int
  m_extractionStart :: int
  m_extractionEnd :: int
  m_knownDecls :: "string \<Rightarrow> string option"

definition FunctionExtractionAnalyser_new :: "int \<Rightarrow> int \<Rightarrow> FunctionExtractionAnalyser" where
  "FunctionExtractionAnalyser_new selStart selEnd =
     \<lparr>m_done = False, m_failed = False, m_selStart = selStart, m_selEnd = selEnd,
      m_extractionStart = 0, m_extractionEnd = 0, m_knownDecls = (\<lambda>name. None)\<rparr>"

text \<open>\<open>visit(DeclarationStatementAST *)\<close>: the declarations seen are recorded.\<close>

definition knownDecls_insert ::
  "string \<Rightarrow> DeclaratorAST \<Rightarrow> (string \<Rightarrow> string option) \<Rightarrow> string \<Rightarrow> string option" where
  "knownDecls_insert specifiers decltr known =
     (let p = assembleDeclarationData specifiers decltr
      in if fst p \<noteq> [] then known(fst p \<mapsto> snd p) else known)"

definition visit_DeclarationStatement ::
  "DeclarationAST option \<Rightarrow> FunctionExtractionAnalyser \<Rightarrow> FunctionExtractionAnalyser" where
  "visit_DeclarationStatement decl a =
     (case decl of
        None \<Rightarrow> a
      | Some d \<Rightarrow>
          (case d of
             OtherDeclarationAST \<Rightarrow> a
           | SimpleDeclarationAST specs specifiers decls semicolon \<Rightarrow>
               if specs \<noteq> [] \<and> decls \<noteq> []
               then a\<lparr>m_knownDecls := fold (knownDecls_insert specifiers) decls (m_knownDecls a)\<rparr>
               else a))"

text \<open>
  The traversal. \<open>accept\<close> asks \<open>preVisit\<close> and then dispatches to the \<open>visit\<close> of
  the node; a node with no \<open>visit\<close> of its own in the analyser has its children
  accepted. \<open>statement\<close> is the member function of that name, on a pointer that may
  be null, and \<open>statements\<close> is the loop over a list of statements that breaks once
  \<open>m_done\<close> is set.
\<close>

function FunctionExtractionAnalyser_visit ::
    "StatementAST \<Rightarrow> FunctionExtractionAnalyser \<Rightarrow> FunctionExtractionAnalyser"
  and FunctionExtractionAnalyser_accept ::
    "StatementAST \<Rightarrow> FunctionExtractionAnalyser \<Rightarrow> FunctionExtractionAnalyser"
  and FunctionExtractionAnalyser_statement ::
    "StatementAST option \<Rightarrow> FunctionExtractionAnalyser \<Rightarrow> FunctionExtractionAnalyser"
  and FunctionExtractionAnalyser_statements ::
    "StatementAST list \<Rightarrow> FunctionExtractionAnalyser \<Rightarrow> FunctionExtractionAnalyser"
where
  "FunctionExtractionAnalyser_visit (CaseStatementAST s e ex st) a =
     FunctionExtractionAnalyser_statement st a"
| "FunctionExtractionAnalyser_visit (CompoundStatementAST s e lb sl) a =
     FunctionExtractionAnalyser_statements sl a"
| "FunctionExtractionAnalyser_visit (DoStatementAST s e dt st wt) a =
     FunctionExtractionAnalyser_statement st a"
| "FunctionExtractionAnalyser_visit (ForeachStatementAST s e st) a =
     FunctionExtractionAnalyser_statement st a"
| "FunctionExtractionAnalyser_visit (RangeBasedForStatementAST s e ft rp st) a =
     FunctionExtractionAnalyser_statement st a"
| "FunctionExtractionAnalyser_visit (ForStatementAST s e ft i rp st) a =
     (let a = FunctionExtractionAnalyser_statement i a
      in if \<not> m_done a then FunctionExtractionAnalyser_statement st a else a)"
| "FunctionExtractionAnalyser_visit (IfStatementAST s e it rp st et es) a =
     (let a = FunctionExtractionAnalyser_statement st a
      in if \<not> m_done a then FunctionExtractionAnalyser_statement es a else a)"
| "FunctionExtractionAnalyser_visit (TryBlockStatementAST s e st cl) a =
     FunctionExtractionAnalyser_statements cl (FunctionExtractionAnalyser_statement st a)"
| "FunctionExtractionAnalyser_visit (WhileStatementAST s e wt rp st) a =
     FunctionExtractionAnalyser_statement st a"
| "FunctionExtractionAnalyser_visit (DeclarationStatementAST s e d) a =
     visit_DeclarationStatement d a"
| "FunctionExtractionAnalyser_visit (ReturnStatementAST s e ex) a =
     (if m_extractionStart a \<noteq> 0 then a\<lparr>m_done := True, m_failed := True\<rparr> else a)"
| "FunctionExtractionAnalyser_visit (SwitchStatementAST s e c st sy) a =
     (case st of None \<Rightarrow> a | Some body \<Rightarrow> FunctionExtractionAnalyser_accept body a)"
| "FunctionExtractionAnalyser_visit (CatchClauseAST s e st) a =
     (case st of None \<Rightarrow> a | Some body \<Rightarrow> FunctionExtractionAnalyser_accept body a)"
| "FunctionExtractionAnalyser_visit (LabeledStatementAST s e st) a =
     (case st of None \<Rightarrow> a | Some body \<Rightarrow> FunctionExtractionAnalyser_accept body a)"
| "FunctionExtractionAnalyser_visit (ExpressionStatementAST s e ex) a = a"
| "FunctionExtractionAnalyser_accept ast a =
     (if m_done a then a else FunctionExtractionAnalyser_visit ast a)"
| "FunctionExtractionAnalyser_statement None a = a"
| "FunctionExtractionAnalyser_statement (Some stmt) a =
     (let stmtStart = startOf stmt;
          stmtEnd = endOf stmt
      in if stmtStart \<ge> m_selEnd a \<or> (m_extractionStart a \<noteq> 0 \<and> stmtEnd > m_selEnd a)
         then a\<lparr>m_done := True\<rparr>
         else
           let a = (if stmtStart \<ge> m_selStart a \<and> m_extractionStart a = 0
                    then a\<lparr>m_extractionStart := stmtStart\<rparr> else a);
               a = (if stmtEnd > m_extractionEnd a \<and> m_extractionStart a \<noteq> 0
                    then a\<lparr>m_extractionEnd := stmtEnd\<rparr> else a)
           in FunctionExtractionAnalyser_accept stmt a)"
| "FunctionExtractionAnalyser_statements [] a = a"
| "FunctionExtractionAnalyser_statements (stmt # it) a =
     (let a = FunctionExtractionAnalyser_statement (Some stmt) a
      in if m_done a then a else FunctionExtractionAnalyser_statements it a)"
  by pat_completeness auto
termination
  by (relation "measure (\<lambda>x. case x of
          Inl (Inl (ast, a)) \<Rightarrow> 4 * size ast
        | Inl (Inr (ast, a)) \<Rightarrow> 4 * size ast + 1
        | Inr (Inl (stmt, a)) \<Rightarrow> 4 * size_option size stmt
        | Inr (Inr (sl, a)) \<Rightarrow> 4 * size_list size sl + 1)")
     auto


declare FunctionExtractionAnalyser_accept.simps [simp del]

text \<open>
  \<open>operator()\<close>: the function definition is accepted, which leads the visitor into
  the body of the function (the specifiers, the declarator and the initialisers of a
  constructor hold no statement), and the analysis has failed as well when it has found
  nothing to extract.
\<close>

definition FunctionExtractionAnalyser_call ::
  "FunctionDefinitionAST \<Rightarrow> FunctionExtractionAnalyser \<Rightarrow> bool \<times> FunctionExtractionAnalyser" where
  "FunctionExtractionAnalyser_call refFunDef a =
     (let a = (case function_body refFunDef of
                 None \<Rightarrow> a
               | Some body \<Rightarrow> FunctionExtractionAnalyser_accept body a);
          a = (if \<not> m_failed a \<and> m_extractionStart a = m_extractionEnd a
               then a\<lparr>m_failed := True\<rparr> else a)
      in (\<not> m_failed a, a))"

text \<open>The innermost function definition of the path.\<close>

function ExtractFunction_refFuncDef ::
  "AST list \<Rightarrow> int \<Rightarrow> error + FunctionDefinitionAST option" where
  "ExtractFunction_refFuncDef path' i =
     (if \<not> (i \<ge> 0) then Inr None
      else case path_at path' i of
        Inl e \<Rightarrow> Inl e
      | Inr node \<Rightarrow>
        (case asFunctionDefinition node of
           Some refFuncDef \<Rightarrow> Inr (Some refFuncDef)
         | None \<Rightarrow> ExtractFunction_refFuncDef path' (i - 1)))"
  by pat_completeness auto
termination
  by (relation "measure (\<lambda>(path', i). nat (i + 1))") auto

declare ExtractFunction_refFuncDef.simps [simp del]

text \<open>
  The parameters of the reference function: their declarations are added to the known
  ones, and their names make up \<open>refFuncParams\<close>.
\<close>

fun ExtractFunction_parameters ::
  "ParameterDeclarationAST list \<Rightarrow> (string \<Rightarrow> string option) \<times> string set
     \<Rightarrow> (string \<Rightarrow> string option) \<times> string set" where
  "ExtractFunction_parameters [] (known, refFuncParams) = (known, refFuncParams)"
| "ExtractFunction_parameters (paramDecl # it) (known, refFuncParams) =
     (case declarator paramDecl of
        None \<Rightarrow> ExtractFunction_parameters it (known, refFuncParams)
      | Some decltr \<Rightarrow>
          let p = assembleDeclarationData (type_specifier_text paramDecl) decltr
          in if fst p \<noteq> []
             then ExtractFunction_parameters it
                    (known(fst p \<mapsto> snd p), insert (fst p) refFuncParams)
             else ExtractFunction_parameters it (known, refFuncParams))"

definition ExtractFunction_refFuncParams ::
  "FunctionDefinitionAST \<Rightarrow> (string \<Rightarrow> string option)
     \<Rightarrow> (string \<Rightarrow> string option) \<times> string set" where
  "ExtractFunction_refFuncParams refFuncDef known =
     (case postfix_declarator_list (fd_declarator refFuncDef) of
        [] \<Rightarrow> (known, {})
      | value # postfix \<Rightarrow>
          (case value of
             ArrayDeclaratorAST \<Rightarrow> (known, {})
           | FunctionDeclaratorAST clause \<Rightarrow>
               (case clause of
                  None \<Rightarrow> (known, {})
                | Some c \<Rightarrow> ExtractFunction_parameters (parameter_declaration_list c) (known, {}))))"

text \<open>
  The loop over the uses of one local symbol: whether it is used before, after and
  inside the extraction.
\<close>

fun ExtractFunction_uses ::
  "int \<Rightarrow> int \<Rightarrow> Use list \<Rightarrow> bool \<times> bool \<times> bool \<Rightarrow> bool \<times> bool \<times> bool" where
  "ExtractFunction_uses extractionStart extractionEnd [] used = used"
| "ExtractFunction_uses extractionStart extractionEnd (use # uses)
       (usedBeforeExtraction, usedAfterExtraction, usedInsideExtraction) =
     (if isInvalid use
      then ExtractFunction_uses extractionStart extractionEnd uses
             (usedBeforeExtraction, usedAfterExtraction, usedInsideExtraction)
      else if use_position use < extractionStart
      then ExtractFunction_uses extractionStart extractionEnd uses
             (True, usedAfterExtraction, usedInsideExtraction)
      else if use_position use \<ge> extractionEnd
      then ExtractFunction_uses extractionStart extractionEnd uses
             (usedBeforeExtraction, True, usedInsideExtraction)
      else ExtractFunction_uses extractionStart extractionEnd uses
             (usedBeforeExtraction, usedAfterExtraction, True))"

text \<open>
  The loop over the local symbols, which finds the parameters and the return value of
  the new function. The result is \<open>None\<close> where the source returns from \<open>doMatch\<close>
  inside the loop: at a failed \<open>QTC_ASSERT\<close>, which prints a message and returns, and
  at a second return value.
\<close>

fun ExtractFunction_locals ::
  "FunctionExtractionAnalyser \<Rightarrow> string set \<Rightarrow> (string \<times> Use list) list
     \<Rightarrow> string option \<Rightarrow> (string \<times> string) list
     \<Rightarrow> (string option \<times> (string \<times> string) list) option" where
  "ExtractFunction_locals analyser refFuncParams [] funcReturn relevantDecls =
     Some (funcReturn, relevantDecls)"
| "ExtractFunction_locals analyser refFuncParams ((name, uses) # it) funcReturn relevantDecls =
     (case ExtractFunction_uses (m_extractionStart analyser) (m_extractionEnd analyser) uses
             (False, False, False) of
        (usedBeforeExtraction, usedAfterExtraction, usedInsideExtraction) \<Rightarrow>
          (case (if (usedBeforeExtraction \<and> usedInsideExtraction)
                    \<or> (usedInsideExtraction \<and> name \<in> refFuncParams)
                 then (case m_knownDecls analyser name of
                         None \<Rightarrow> None
                       | Some decl \<Rightarrow> Some (relevantDecls @ [(name, decl)]))
                 else Some relevantDecls) of
             None \<Rightarrow> None
           | Some relevantDecls' \<Rightarrow>
               if usedInsideExtraction \<and> usedAfterExtraction \<and> \<not> usedBeforeExtraction
               then (case funcReturn of
                       None \<Rightarrow>
                         (case m_knownDecls analyser name of
                            None \<Rightarrow> None
                          | Some decl \<Rightarrow>
                              ExtractFunction_locals analyser refFuncParams it (Some name)
                                ((name, decl) # relevantDecls'))
                     | Some symbol \<Rightarrow> None)
               else ExtractFunction_locals analyser refFuncParams it funcReturn relevantDecls'))"

text \<open>
  The operation is constructed with the priority that the constructor of the base class
  has as default, a constant of a header that is a parameter here.
\<close>

definition ExtractFunctionOperation_new ::
  "int \<Rightarrow> int \<Rightarrow> int \<Rightarrow> FunctionDefinitionAST \<Rightarrow> string option \<Rightarrow> (string \<times> string) list
     \<Rightarrow> QuickFixOperation" where
  "ExtractFunctionOperation_new defaultPriority extractionStart extractionEnd refFuncDef
       funcReturn relevantDecls =
     \<lparr>priority = defaultPriority, description = ''Extract Function'',
      operation = ExtractFunctionOperation extractionStart extractionEnd refFuncDef
                    funcReturn relevantDecls\<rparr>"

definition ExtractFunction_doMatch ::
  "int \<Rightarrow> CppQuickFixInterface \<Rightarrow> error + QuickFixOperation list" where
  "ExtractFunction_doMatch defaultPriority interface =
     (let file = currentFile interface in
      if \<not> hasSelection file then Inr []
      else case ExtractFunction_refFuncDef (path interface) (int (length (path interface)) - 1) of
        Inl e \<Rightarrow> Inl e
      | Inr None \<Rightarrow> Inr []
      | Inr (Some refFuncDef) \<Rightarrow>
          if (case function_body refFuncDef of
                None \<Rightarrow> True
              | Some body \<Rightarrow>
                  (case asCompoundStatement body of
                     None \<Rightarrow> True
                   | Some compound \<Rightarrow> statement_list compound = []))
             \<or> (case fd_symbol refFuncDef of
                   None \<Rightarrow> True
                 | Some symbol \<Rightarrow>
                     function_name symbol = None \<or> enclosingScope_asTemplate symbol)
          then Inr []
          else
            let selStart = (if selectionStart file > selectionEnd file
                            then selectionEnd file else selectionStart file);
                selEnd = (if selectionStart file > selectionEnd file
                          then selectionStart file else selectionEnd file)
            in (case FunctionExtractionAnalyser_call refFuncDef
                       (FunctionExtractionAnalyser_new selStart selEnd) of
                  (ok, analyser) \<Rightarrow>
                    if \<not> ok then Inr []
                    else
                      (case ExtractFunction_refFuncParams refFuncDef (m_knownDecls analyser) of
                         (known, refFuncParams) \<Rightarrow>
                           (case ExtractFunction_locals (analyser\<lparr>m_knownDecls := known\<rparr>)
                                   refFuncParams (localUses interface) None [] of
                              None \<Rightarrow> Inr []
                            | Some (funcReturn, relevantDecls) \<Rightarrow>
                                Inr [ExtractFunctionOperation_new defaultPriority
                                       (m_extractionStart analyser) (m_extractionEnd analyser)
                                       refFuncDef funcReturn relevantDecls]))))"

subsection \<open>ApplyDeclDefLinkChanges\<close>

text \<open>
  The link between the declaration and the definition of a function that the editor
  holds, if any, is what this rule reads; it is given with the interface.
\<close>

record FunctionDeclDefLink =
  isMarkerVisible :: bool

definition ApplyDeclDefLinkOperation_new :: "FunctionDeclDefLink \<Rightarrow> QuickFixOperation" where
  "ApplyDeclDefLinkOperation_new link =
     \<lparr>priority = 100, description = ''Apply Function Signature Changes'',
      operation = ApplyDeclDefLinkOperation\<rparr>"

definition ApplyDeclDefLinkChanges_doMatch ::
  "FunctionDeclDefLink option \<Rightarrow> CppQuickFixInterface \<Rightarrow> error + QuickFixOperation list" where
  "ApplyDeclDefLinkChanges_doMatch declDefLink interface =
     (case declDefLink of
        None \<Rightarrow> Inr []
      | Some link \<Rightarrow>
          if \<not> isMarkerVisible link then Inr []
          else Inr [ApplyDeclDefLinkOperation_new link])"

subsection \<open>ChangeSet\<close>

text \<open>
  Modelled from the spec: the \<open>ChangeSet\<close> of the utilities library, which the
  operations fill and apply, has no source among the files at hand. Following the
  specification, a change set is the ordered collection of its primitive edits against
  one snapshot of the buffer; every editing function appends one primitive and applies
  nothing.
\<close>

datatype Edit =
    Insert int string
  | Remove int int
  | Replace int int string
  | Move int int int
  | Copy int int int
  | Flip int int int int

type_synonym ChangeSet = "Edit list"


definition ChangeSet_remove :: "int \<Rightarrow> int \<Rightarrow> ChangeSet \<Rightarrow> ChangeSet" where
  "ChangeSet_remove start end changes = changes @ [Remove start end]"

definition ChangeSet_replace :: "int \<Rightarrow> int \<Rightarrow> string \<Rightarrow> ChangeSet \<Rightarrow> ChangeSet" where
  "ChangeSet_replace start end text' changes = changes @ [Replace start end text']"

definition ChangeSet_move :: "int \<Rightarrow> int \<Rightarrow> int \<Rightarrow> ChangeSet \<Rightarrow> ChangeSet" where
  "ChangeSet_move srcStart srcEnd dstPos changes = changes @ [Move srcStart srcEnd dstPos]"

definition ChangeSet_copy :: "int \<Rightarrow> int \<Rightarrow> int \<Rightarrow> ChangeSet \<Rightarrow> ChangeSet" where
  "ChangeSet_copy srcStart srcEnd dstPos changes = changes @ [Copy srcStart srcEnd dstPos]"

definition ChangeSet_flip :: "int \<Rightarrow> int \<Rightarrow> int \<Rightarrow> int \<Rightarrow> ChangeSet \<Rightarrow> ChangeSet" where
  "ChangeSet_flip startA endA startB endB changes = changes @ [Flip startA endA startB endB]"

text \<open>
  Modelled from the spec: the source ranges of a primitive are the ranges of the snapshot
  that it rewrites. An insertion rewrites none, and neither does a copy, which only reads
  its source; a move clears its source; the destination of a move or copy is a position,
  not a range. Two ranges intersect when they share a character.
\<close>

fun source_ranges :: "Edit \<Rightarrow> (int \<times> int) list" where
  "source_ranges (Insert pos t) = []"
| "source_ranges (Remove s e) = [(s, e)]"
| "source_ranges (Replace s e t) = [(s, e)]"
| "source_ranges (Move s e d) = [(s, e)]"
| "source_ranges (Copy s e d) = []"
| "source_ranges (Flip sa ea sb eb) = [(sa, ea), (sb, eb)]"

definition ranges_intersect :: "int \<times> int \<Rightarrow> int \<times> int \<Rightarrow> bool" where
  "ranges_intersect a b = (fst a < snd b \<and> fst b < snd a)"

definition conflict :: "Edit \<Rightarrow> Edit \<Rightarrow> bool" where
  "conflict a b =
     list_ex (\<lambda>r. list_ex (ranges_intersect r) (source_ranges b)) (source_ranges a)"

fun hasOverlap :: "ChangeSet \<Rightarrow> bool" where
  "hasOverlap [] = False"
| "hasOverlap (edit # edits) = (list_ex (conflict edit) edits \<or> hasOverlap edits)"

text \<open>
  Modelled from the spec: every primitive becomes replacements of ranges of the snapshot
  by texts that are read from the snapshot (so that a flip is two replaces computed from
  one read); the replacements are sorted by source position, keeping the order of
  appending among equal positions, and the buffer is rewritten in one pass from left to
  right, with the offset that the replacements made so far have caused.
\<close>

definition textOf :: "string \<Rightarrow> int \<Rightarrow> int \<Rightarrow> string" where
  "textOf buffer start end = take (nat (end - start)) (drop (nat start) buffer)"

fun replacements :: "string \<Rightarrow> Edit \<Rightarrow> (int \<times> int \<times> string) list" where
  "replacements buffer (Insert pos t) = [(pos, pos, t)]"
| "replacements buffer (Remove s e) = [(s, e, [])]"
| "replacements buffer (Replace s e t) = [(s, e, t)]"
| "replacements buffer (Move s e d) = [(s, e, []), (d, d, textOf buffer s e)]"
| "replacements buffer (Copy s e d) = [(d, d, textOf buffer s e)]"
| "replacements buffer (Flip sa ea sb eb) =
     [(sa, ea, textOf buffer sb eb), (sb, eb, textOf buffer sa ea)]"

fun rewrite_pass :: "int \<Rightarrow> (int \<times> int \<times> string) list \<Rightarrow> string \<Rightarrow> string" where
  "rewrite_pass offset [] buffer = buffer"
| "rewrite_pass offset ((s, e, t) # rs) buffer =
     rewrite_pass (offset + int (length t) - (e - s)) rs
       (take (nat (s + offset)) buffer @ t @ drop (nat (e + offset)) buffer)"

datatype ChangeSet_error = OverlapError

text \<open>
  Modelled from the spec: \<open>apply\<close> returns its outcome with the buffer as it is
  afterwards. The overlap is checked first, and a change set that fails it leaves the
  buffer as it was.
\<close>

definition ChangeSet_apply :: "ChangeSet \<Rightarrow> string \<Rightarrow> (ChangeSet_error + unit) \<times> string" where
  "ChangeSet_apply changes buffer =
     (if hasOverlap changes then (Inl OverlapError, buffer)
      else (Inr (),
            rewrite_pass 0 (sort_key fst (concat (map (replacements buffer) changes))) buffer))"

text \<open>
  Two primitives of the change set, at different places of it, have intersecting source
  ranges.
\<close>

definition overlapping :: "ChangeSet \<Rightarrow> bool" where
  "overlapping changes =
     (\<exists>i j. i < j \<and> j < length changes \<and> conflict (changes ! i) (changes ! j))"

subsection \<open>What the operations perform\<close>

text \<open>
  \<open>ConvertNumericLiteralOp::perform\<close> and \<open>CompleteSwitchCaseStatementOp::perform\<close>
  on the text of the current file.
\<close>

definition ConvertNumericLiteralOp_perform ::
  "int \<Rightarrow> int \<Rightarrow> string \<Rightarrow> string \<Rightarrow> (ChangeSet_error + unit) \<times> string" where
  "ConvertNumericLiteralOp_perform start end replacement buffer =
     (let changes = ChangeSet_replace start end replacement []
      in ChangeSet_apply changes buffer)"



text \<open>
  The case statements below a statement, in the order of the document. With
  \<open>nested = False\<close> the walk does not go into a switch statement: the case labels
  in there are the labels of that switch statement.
\<close>

function case_statements :: "bool \<Rightarrow> StatementAST \<Rightarrow> StatementAST list" where
  "case_statements nested st =
     (if \<not> nested \<and> asSwitchStatement (Statement st) \<noteq> None then []
      else option_list (asCaseStatement st)
           @ concat (map (case_statements nested) (child_statements st)))"
  by pat_completeness auto
termination
proof -
  have le: "c \<in> set xs \<Longrightarrow> size c \<le> size_list size xs" for c :: StatementAST and xs
    by (induction xs) auto
  have ol: "c \<in> set (option_list x) \<Longrightarrow> size c \<le> size_option size x"
    for c :: StatementAST and x
    by (cases x) auto
  have sz: "c \<in> set (child_statements s) \<Longrightarrow> size c < size s" for c s
    by (cases s) (auto dest: ol le simp: less_Suc_eq_le)
  show ?thesis
    by (relation "measure (\<lambda>(nested, st). size st)") (auto dest: sz)
qed

declare case_statements.simps [simp del]



text \<open>
  A chain of case statements, as in \<open>case A: case B: f();\<close>, whose last statement holds
  no case label of the switch statement; a statement that is no case statement is such a
  chain when it holds no case label of the switch statement.
\<close>

fun case_chain :: "StatementAST \<Rightarrow> bool" where
  "case_chain (CaseStatementAST s e ex None) = True"
| "case_chain (CaseStatementAST s e ex (Some st)) = case_chain st"
| "case_chain st = (case_statements False st = [])"

text \<open>
  The case labels of a list of statements stand at the case level when no case label of
  the switch statement stands in a statement, other than a case statement, that begins
  after a case label, and no switch statement with case labels stands before the first
  case label. So the statements that hold no case statement at all are passed; the first
  statement that holds one is a chain of case statements, or it is no switch statement and
  the statements below it are a list of this kind; and every statement after it is a chain
  of case statements.
\<close>

function labels_at_case_level :: "StatementAST list \<Rightarrow> bool" where
  "labels_at_case_level [] = True"
| "labels_at_case_level (st # sl) =
     (if case_statements True st = [] then labels_at_case_level sl
      else (if asCaseStatement st \<noteq> None then case_chain st
            else asSwitchStatement (Statement st) = None
                 \<and> labels_at_case_level (child_statements st))
           \<and> (\<forall>t \<in> set sl. case_chain t))"
  by pat_completeness auto
termination
proof -
  have ol: "size_list size (option_list x) \<le> size_option size x" for x :: "StatementAST option"
    by (cases x) auto
  have sz: "size_list size (child_statements s) \<le> size s" for s
  proof (cases s)
    case (IfStatementAST s1 e1 it rp st et es)
    with ol [of st] ol [of es] show ?thesis by simp
  next
    case (ForStatementAST s1 e1 ft i rp st)
    with ol [of i] ol [of st] show ?thesis by simp
  next
    case (TryBlockStatementAST s1 e1 st cl)
    with ol [of st] show ?thesis by simp
  qed (auto simp: le_Suc_eq ol)
  show ?thesis
    by (relation "measure (size_list size)")
       (auto simp: less_Suc_eq_le intro: order_trans [OF sz] trans_le_add1)
qed

declare labels_at_case_level.simps [simp del]




definition example_case :: "int \<Rightarrow> StatementAST" where
  "example_case label =
     CaseStatementAST 0 0 (Some (IdExpressionAST label)) (Some (ExpressionStatementAST 0 0 None))"




text \<open>
  An example for \<open>ExtractFunction\<close>: the function
  \<open>void f() { while (true) { return; } }\<close> at the start of the document, with a
  selection; the keyword \<open>while\<close> is at the positions 11 to 16, and the \<open>while\<close>
  statement at the positions 11 to 35.
\<close>

definition example_while :: StatementAST where
  "example_while =
     WhileStatementAST 11 35 6 9
       (Some (CompoundStatementAST 24 35 10 [ReturnStatementAST 26 33 None]))"

definition example_function :: FunctionDefinitionAST where
  "example_function =
     \<lparr>fd_declarator =
        DeclaratorAST (Some (DeclaratorIdAST (Some ''f'')))
          [FunctionDeclaratorAST (Some (ParameterDeclarationClauseAST [] 0))] ''f'',
      function_body = Some (CompoundStatementAST 9 37 5 [example_while]),
      fd_symbol = Some \<lparr>function_name = Some ''f'', enclosingScope_asTemplate = False\<rparr>\<rparr>"

definition selection_interface :: "AST list \<Rightarrow> int \<Rightarrow> int \<Rightarrow> CppQuickFixInterface" where
  "selection_interface p selStart selEnd =
     \<lparr>path = p,
      currentFile = \<lparr>tokenAt = (\<lambda>t. token_of_kind T_OTHER),
                     startOfToken = (\<lambda>t. t), endOfToken = (\<lambda>t. t + 1),
                     hasSelection = True, selectionStart = selStart, selectionEnd = selEnd\<rparr>,
      isCursorOn = (\<lambda>t. False), isCursorOnCore = (\<lambda>c. False),
      typeOfExpression = (\<lambda>e. []), localUses = []\<rparr>"

definition example_function_interface :: "int \<Rightarrow> int \<Rightarrow> CppQuickFixInterface" where
  "example_function_interface selStart selEnd =
     selection_interface
       [FunctionDefinition example_function,
        Statement (CompoundStatementAST 9 37 5 [example_while]),
        Statement example_while] selStart selEnd"

subsection \<open>Notions for the properties of the rules\<close>


text \<open>The innermost node of a path that a cast accepts, as the cast returns it.\<close>

fun innermost :: "(AST \<Rightarrow> 'a option) \<Rightarrow> AST list \<Rightarrow> 'a option" where
  "innermost cast [] = None"
| "innermost cast (node # nodes) =
     (case innermost cast nodes of
        Some x \<Rightarrow> Some x
      | None \<Rightarrow> cast node)"

text \<open>
  The first postfix declarator of the function is a function declarator whose parameter
  clause has the token of an ellipsis.
\<close>

definition ellipsis_parameter :: "FunctionDefinitionAST \<Rightarrow> bool" where
  "ellipsis_parameter function =
     (case postfix_declarator_list (fd_declarator function) of
        [] \<Rightarrow> False
      | value # postfix \<Rightarrow>
          (case value of
             ArrayDeclaratorAST \<Rightarrow> False
           | FunctionDeclaratorAST clause \<Rightarrow>
               (case clause of
                  None \<Rightarrow> False
                | Some c \<Rightarrow> dot_dot_dot_token c \<noteq> 0)))"

text \<open>
  Examples for \<open>SplitSimpleDeclaration\<close> and for unmet preconditions: the declaration
  \<open>int a, b;\<close> with the cursor on \<open>int\<close> (the tokens 1 to 6, the cursor at position
  1), the same declaration without its semicolon below a function with an ellipsis in a
  template, and a literal below them.
\<close>

definition example_declaration :: "int \<Rightarrow> DeclarationAST" where
  "example_declaration semicolon =
     SimpleDeclarationAST
       [\<lparr>asSpecifier = OtherSpecifier, spec_firstToken = 1, spec_lastToken = 2\<rparr>] ''int''
       [DeclaratorAST (Some (DeclaratorIdAST (Some ''a''))) [] ''a'',
        DeclaratorAST (Some (DeclaratorIdAST (Some ''b''))) [] ''b'']
       semicolon"


definition example_variadic_function :: FunctionDefinitionAST where
  "example_variadic_function =
     \<lparr>fd_declarator =
        DeclaratorAST (Some (DeclaratorIdAST (Some ''f'')))
          [FunctionDeclaratorAST (Some (ParameterDeclarationClauseAST [] 4))] ''f'',
      function_body = Some (CompoundStatementAST 20 40 6 [ExpressionStatementAST 22 30 None]),
      fd_symbol = Some \<lparr>function_name = Some ''f'', enclosingScope_asTemplate = True\<rparr>\<rparr>"

definition example_unmet_interface :: CppQuickFixInterface where
  "example_unmet_interface =
     selection_interface
       [FunctionDefinition example_variadic_function,
        Declaration (example_declaration 0),
        Expression (NumericLiteralAST 9)] 1 1"


section \<open>Properties\<close>

subsection \<open>Digits: reading back what was printed\<close>


lemma lt16_cases: "(d::nat) < 16 \<Longrightarrow> d \<in> {0,1,2,3,4,5,6,7,8,9,10,11,12,13,14,15}"
  unfolding insert_iff empty_iff by arith

lemma digit_value_digit_char: "d < 16 \<Longrightarrow> digit_value (digit_char d) = Some d"
  by (drule lt16_cases) (auto simp: digit_value_def digit_char_def)

lemma isxdigit_digit_char: "d < 16 \<Longrightarrow> isxdigit (digit_char d)"
  by (drule lt16_cases) (auto simp: isxdigit_def digit_char_def)

lemma digit_char_zero_iff: "d < 16 \<Longrightarrow> digit_char d = CHR ''0'' \<longleftrightarrow> d = 0"
  by (drule lt16_cases) (auto simp: digit_char_def)

lemma digits_value_append:
  "digits_value b (xs @ ys) acc =
     (case digits_value b xs acc of None \<Rightarrow> None | Some a \<Rightarrow> digits_value b ys a)"
  by (induction xs arbitrary: acc) (auto split: option.splits)

lemma digits_value_digits_of:
  "2 \<le> b \<Longrightarrow> b \<le> 16 \<Longrightarrow> digits_value b (digits_of b n) 0 = Some n"
proof (induction b n rule: digits_of.induct)
  case (1 b n)
  show ?case
  proof (cases "n < b")
    case True
    with 1 show ?thesis
      by (simp add: digits_of.simps [of b n] digit_value_digit_char)
  next
    case False
    have "n mod b < b" using 1(2) by simp
    then have "n mod b < 16" using 1(3) by simp
    with False 1 show ?thesis
      by (simp add: digits_of.simps [of b n] digits_value_append digit_value_digit_char)
  qed
qed

lemma digits_of_not_Nil: "digits_of b n \<noteq> []"
  by (subst digits_of.simps) simp

lemma last_digits_of: "2 \<le> b \<Longrightarrow> last (digits_of b n) = digit_char (n mod b)"
  by (subst digits_of.simps) simp

lemma digits_of_all:
  "2 \<le> b \<Longrightarrow> b \<le> 16 \<Longrightarrow> c \<in> set (digits_of b n) \<Longrightarrow> \<exists>d<b. c = digit_char d"
proof (induction b n rule: digits_of.induct)
  case (1 b n)
  show ?case
  proof (cases "n < b")
    case True
    with 1 show ?thesis by (auto simp: digits_of.simps [of b n])
  next
    case False
    have m: "n mod b < b" using 1(2) by simp
    from False 1(2-) have "c \<in> set (digits_of b (n div b)) \<or> c = digit_char (n mod b)"
      by (auto simp: digits_of.simps [of b n])
    then show ?thesis
    proof
      assume "c \<in> set (digits_of b (n div b))"
      with 1 False show ?thesis by simp
    next
      assume "c = digit_char (n mod b)"
      with m show ?thesis by blast
    qed
  qed
qed

lemma hd_digits_of_nonzero:
  "2 \<le> b \<Longrightarrow> b \<le> 16 \<Longrightarrow> 0 < n \<Longrightarrow> hd (digits_of b n) \<noteq> CHR ''0''"
proof (induction b n rule: digits_of.induct)
  case (1 b n)
  show ?case
  proof (cases "n < b")
    case True
    with 1 show ?thesis by (simp add: digits_of.simps [of b n] digit_char_zero_iff)
  next
    case False
    then have "0 < n div b" using 1(2) by (simp add: div_greater_zero_iff)
    with False 1 show ?thesis
      by (simp add: digits_of.simps [of b n] digits_of_not_Nil)
  qed
qed


lemma digits_of_isxdigit:
  assumes "2 \<le> b" "b \<le> 16" "c \<in> set (digits_of b n)"
  shows "isxdigit c"
proof -
  from digits_of_all [OF assms] obtain d where "d < b" "c = digit_char d" by blast
  with assms(2) show ?thesis by (simp add: isxdigit_digit_char)
qed

lemma strip_suffix_le: "strip_suffix s n \<le> n"
  by (induction n) auto

lemma strip_suffix_dropped:
  "strip_suffix s n \<le> k \<Longrightarrow> k < n \<Longrightarrow> \<not> isxdigit (s ! k)"
proof (induction n)
  case 0
  then show ?case by simp
next
  case (Suc n)
  show ?case
  proof (cases "isxdigit (s ! n)")
    case True
    with Suc.prems show ?thesis by simp
  next
    case False
    with Suc show ?thesis by (cases "k = n") auto
  qed
qed

lemma strip_suffix_last:
  "0 < strip_suffix s n \<Longrightarrow> isxdigit (s ! (strip_suffix s n - 1))"
  by (induction n) (auto split: if_splits)

lemma strip_suffix_full:
  assumes "s \<noteq> []" "isxdigit (last s)"
  shows "strip_suffix s (length s) = length s"
proof -
  from assms(1) obtain n where n: "length s = Suc n" by (cases s) auto
  with assms(1) have "last s = s ! n" by (simp add: last_conv_nth)
  with assms(2) n show ?thesis by simp
qed

lemma strip_suffix_digits_of:
  "2 \<le> b \<Longrightarrow> b \<le> 16 \<Longrightarrow> strip_suffix (p @ digits_of b n) (length (p @ digits_of b n)) = length (p @ digits_of b n)"
proof (rule strip_suffix_full)
  assume b: "2 \<le> b" "b \<le> 16"
  show "p @ digits_of b n \<noteq> []" by (simp add: digits_of_not_Nil)
  have "last (digits_of b n) \<in> set (digits_of b n)"
    by (rule last_in_set) (rule digits_of_not_Nil)
  then have "isxdigit (last (digits_of b n))" by (rule digits_of_isxdigit [OF b])
  then show "isxdigit (last (p @ digits_of b n))" by (simp add: digits_of_not_Nil)
qed

lemma toULong_digits_digits_of:
  "2 \<le> b \<Longrightarrow> b \<le> 16 \<Longrightarrow> toULong_digits b (digits_of b (unat v)) = Some v"
  for v :: ulong
proof -
  assume b: "2 \<le> b" "b \<le> 16"
  have "unat v < 2 ^ 64" using unsigned_less [of v] by simp
  with b show ?thesis
    by (simp add: toULong_digits_def digits_of_not_Nil digits_value_digits_of)
qed

lemma digits_value_zero_Cons: "0 < b \<Longrightarrow> digits_value b (CHR ''0'' # s) 0 = digits_value b s 0"
  by (simp add: digit_value_def)

lemma hd_digits_of_zero: "digits_of b 0 = ''0''"
  by (subst digits_of.simps) (auto simp: digit_char_def)

lemma toULong_hex: "toULong (''0x'' @ asprintf_lX v) 0 = Some v"
  by (simp add: toULong_def asprintf_lX_def toULong_digits_digits_of)

lemma toULong_oct: "toULong (''0'' @ asprintf_lo v) 0 = Some v"
proof -
  have ne: "digits_of 8 (unat v) \<noteq> []" by (rule digits_of_not_Nil)
  then obtain c cs where cs: "digits_of 8 (unat v) = c # cs" by (cases "digits_of 8 (unat v)") auto
  have "isxdigit c \<and> c \<noteq> CHR ''x'' \<and> c \<noteq> CHR ''X''"
  proof -
    have "c \<in> set (digits_of 8 (unat v))" using cs by simp
    then have "isxdigit c" by (rule digits_of_isxdigit [rotated 2]) simp_all
    then show ?thesis by (auto simp: isxdigit_def)
  qed
  then have t2: "take 2 (''0'' @ digits_of 8 (unat v)) \<noteq> ''0x''" "take 2 (''0'' @ digits_of 8 (unat v)) \<noteq> ''0X''"
    using cs by auto
  have "toULong_digits 8 (CHR ''0'' # digits_of 8 (unat v)) = toULong_digits 8 (digits_of 8 (unat v))"
    by (simp add: toULong_digits_def digit_value_def ne)
  with t2 show ?thesis
    by (simp add: toULong_def asprintf_lo_def toULong_digits_digits_of)
qed

lemma toULong_dec: "toULong (asprintf_lu v) 0 = Some v"
proof (cases "v = 0")
  case True
  then show ?thesis
    by (simp add: asprintf_lu_def hd_digits_of_zero toULong_def toULong_digits_def digit_value_def)
next
  case False
  then have pos: "0 < unat v" by (simp add: unat_gt_0)
  have ne: "digits_of 10 (unat v) \<noteq> []" by (rule digits_of_not_Nil)
  then obtain c cs where cs: "digits_of 10 (unat v) = c # cs" by (cases "digits_of 10 (unat v)") auto
  have "hd (digits_of 10 (unat v)) \<noteq> CHR ''0''" using pos by (intro hd_digits_of_nonzero) simp_all
  with cs have "c \<noteq> CHR ''0''" by simp
  with cs have "take 2 (digits_of 10 (unat v)) \<noteq> ''0x''" "take 2 (digits_of 10 (unat v)) \<noteq> ''0X''"
     "take 1 (digits_of 10 (unat v)) \<noteq> ''0''" by auto
  then show ?thesis
    by (simp add: toULong_def asprintf_lu_def toULong_digits_digits_of)
qed

lemma digits_value_bits:
  "digits_value 2 (map (\<lambda>i. if bit v i then CHR ''1'' else CHR ''0'') (rev [0..<n])) acc
     = Some (acc * 2 ^ n + take_bit n (unat v))"
  for v :: ulong
proof (induction n arbitrary: acc)
  case 0
  then show ?case by simp
next
  case (Suc n)
  have b: "bit (unat v) n = bit v n" by (simp add: bit_unsigned_iff)
  have t: "take_bit (Suc n) (unat v) = 2 ^ n * of_bool (bit v n) + take_bit n (unat v)"
    by (simp add: take_bit_Suc_from_most b)
  show ?case
  proof (cases "bit v n")
    case True
    then show ?thesis by (simp add: Suc.IH t digit_value_def)
  next
    case False
    then show ?thesis by (simp add: Suc.IH t digit_value_def)
  qed
qed

lemma digits_value_bitset: "digits_value 2 (bitset_to_string v) 0 = Some (unat v)"
proof -
  have "take_bit 64 (unat v) = unat v"
    using unsigned_less [of v] by (simp add: take_bit_nat_eq_self_iff)
  then show ?thesis
    by (simp only: bitset_to_string_def digits_value_bits) simp
qed

lemma digits_value_dropWhile_zero:
  "0 < b \<Longrightarrow> digits_value b (dropWhile (\<lambda>c. c = CHR ''0'') s) 0 = digits_value b s 0"
  by (induction s) (auto simp: digit_value_def)

lemma remove_leading_zeros_value:
  "digits_value 2 (remove_leading_zeros (bitset_to_string v)) 0 = Some (unat v)"
  by (simp add: remove_leading_zeros_def digits_value_dropWhile_zero digits_value_bitset)

lemma remove_leading_zeros_not_Nil:
  assumes "v \<noteq> 0"
  shows "remove_leading_zeros (bitset_to_string v) \<noteq> []"
proof
  assume "remove_leading_zeros (bitset_to_string v) = []"
  with remove_leading_zeros_value [of v] have "unat v = 0" by simp
  with assms show False by (simp add: unat_eq_0)
qed

lemma toULong_bin:
  "v \<noteq> 0 \<Longrightarrow> toULong (remove_leading_zeros (bitset_to_string v)) 2 = Some v"
proof -
  assume v: "v \<noteq> 0"
  have "unat v < 2 ^ 64" using unsigned_less [of v] by simp
  then show ?thesis
    by (simp add: toULong_def toULong_digits_def remove_leading_zeros_not_Nil [OF v]
        remove_leading_zeros_value)
qed

lemma bitset_chars: "c \<in> set (bitset_to_string v) \<Longrightarrow> c = CHR ''0'' \<or> c = CHR ''1''"
  by (auto simp: bitset_to_string_def)

lemma hd_remove_leading_zeros:
  assumes "v \<noteq> 0"
  shows "hd (remove_leading_zeros (bitset_to_string v)) = CHR ''1''"
proof -
  let ?s = "remove_leading_zeros (bitset_to_string v)"
  have ne: "?s \<noteq> []" by (rule remove_leading_zeros_not_Nil [OF assms])
  then have "hd ?s \<noteq> CHR ''0''"
    using hd_dropWhile [of "\<lambda>c. c = CHR ''0''" "bitset_to_string v"]
    by (simp add: remove_leading_zeros_def)
  moreover have "hd ?s \<in> set ?s" using ne by (rule hd_in_set)
  then have "hd ?s \<in> set (bitset_to_string v)"
    unfolding remove_leading_zeros_def by (rule set_dropWhileD)
  ultimately show ?thesis using bitset_chars by blast
qed

subsection \<open>ConvertNumericLiteral: the operations by radix\<close>


lemma take2_eq: "take 2 s = [a, b] \<longleftrightarrow> 2 \<le> length s \<and> s ! 0 = a \<and> s ! 1 = b"
  by (cases s; cases "tl s") auto

lemma take1_eq: "take 1 s = [a] \<longleftrightarrow> s \<noteq> [] \<and> s ! 0 = a"
  by (cases s) auto

lemma toULong_digits_Some_not_Nil: "toULong_digits b s = Some v \<Longrightarrow> s \<noteq> []"
  by (auto simp: toULong_digits_def split: if_splits)

lemma isBinary_iff:
  assumes "numeric_value x = Some v"
  shows "(2 < length x \<and> x ! 0 = CHR ''0'' \<and> (x ! 1 = CHR ''b'' \<or> x ! 1 = CHR ''B''))
         \<longleftrightarrow> radix_of x = Binary"
proof -
  have "2 < length x" if "take 2 x = ''0b'' \<or> take 2 x = ''0B''"
  proof -
    from that assms have "toULong_digits 2 (drop 2 x) = Some v"
      by (auto simp: numeric_value_def toULong_def)
    then have "drop 2 x \<noteq> []" by (rule toULong_digits_Some_not_Nil)
    then show ?thesis by simp
  qed
  then show ?thesis
    by (auto simp: radix_of_def take2_eq take1_eq)
qed

lemma octal_second_digit:
  assumes "toULong_digits 8 (a # b # rest) = Some v"
  shows "(48::nat) \<le> of_char b \<and> (of_char b :: nat) \<le> 55"
  using assms
  by (auto simp: toULong_digits_def digit_value_def Let_def split: option.splits if_splits)

lemma isOctal_iff:
  assumes "numeric_value x = Some v"
  shows "(2 \<le> length x \<and> x ! 0 = CHR ''0'' \<and> (48::nat) \<le> of_char (x ! 1) \<and> (of_char (x ! 1) :: nat) \<le> 55)
         \<longleftrightarrow> radix_of x = Octal"
proof (cases x)
  case Nil
  then show ?thesis by (simp add: radix_of_def)
next
  case (Cons a t)
  note x = this
  show ?thesis
  proof (cases t)
    case Nil
    with x show ?thesis by (simp add: radix_of_def)
  next
    case (Cons b rest)
    show ?thesis
    proof (cases "radix_of x = Octal")
      case True
      with x Cons have a: "a = CHR ''0''" and nb: "b \<noteq> CHR ''x''" "b \<noteq> CHR ''X''" "b \<noteq> CHR ''b''" "b \<noteq> CHR ''B''"
        by (auto simp: radix_of_def split: if_splits)
      with assms x Cons have "toULong_digits 8 (a # b # rest) = Some v"
        by (simp add: numeric_value_def toULong_def)
      from octal_second_digit [OF this] True a x Cons show ?thesis by simp
    next
      case False
      with x Cons show ?thesis
        by (auto simp: radix_of_def split: if_splits)
    qed
  qed
qed


lemma numeric_value_Nil: "numeric_value [] = None"
  by (simp add: numeric_value_def toULong_def toULong_digits_def)

lemma literal_under_cursorD:
  assumes "literal_under_cursor interface numeric"
  obtains t where "path interface \<noteq> []" "last (path interface) = Expression (NumericLiteralAST t)"
    "tokenAt (currentFile interface) t = \<lparr>kind = T_NUMERIC_LITERAL, number = numeric\<rparr>"
    "literal_start interface = startOfToken (currentFile interface) t"
proof -
  from assms have ne: "path interface \<noteq> []" by (simp add: literal_under_cursor_def)
  from assms obtain literal where l: "asNumericLiteral (last (path interface)) = Some literal"
    and tk: "tokenAt (currentFile interface) (literal_token literal)
             = \<lparr>kind = T_NUMERIC_LITERAL, number = numeric\<rparr>"
    by (auto simp: literal_under_cursor_def split: option.splits)
  from l obtain t where t: "last (path interface) = Expression (NumericLiteralAST t)" "literal = NumericLiteralAST t"
    by (cases "last (path interface)" rule: asNumericLiteral.cases) auto
  show ?thesis
    using that [of t] ne t tk l by (simp add: literal_start_def)
qed

lemma doMatch_literal:
  assumes "literal_under_cursor interface numeric"
  shows "ConvertNumericLiteral_doMatch interface =
     (if isDouble numeric \<or> isFloat numeric then Inr []
      else case numeric_value (digits_part numeric) of
             None \<Rightarrow> Inr []
           | Some v \<Rightarrow>
               Inr (ConvertNumericLiteral_operations (int (length (path interface)) - 1)
                      (literal_start interface) numeric (length (digits_part numeric)) v))"
proof -
  from assms obtain t where ne: "path interface \<noteq> []"
    and l: "last (path interface) = Expression (NumericLiteralAST t)"
    and tk: "tokenAt (currentFile interface) t = \<lparr>kind = T_NUMERIC_LITERAL, number = numeric\<rparr>"
    and st: "literal_start interface = startOfToken (currentFile interface) t"
    by (rule literal_under_cursorD)
  define n where "n = strip_suffix (chars numeric) (length (chars numeric))"
  have nle: "n \<le> length (chars numeric)" unfolding n_def by (rule strip_suffix_le)
  have x: "digits_part numeric = take n (chars numeric)" by (simp add: digits_part_def n_def)
  have len: "length (digits_part numeric) = n" using nle by (simp add: x)
  show ?thesis
  proof (cases "n < 1")
    case True
    then have "digits_part numeric = []" by (simp add: x)
    with True show ?thesis
      using ne l tk
      by (simp add: ConvertNumericLiteral_doMatch_def path_last_def Let_def numeric_value_Nil
          flip: n_def)
  next
    case False
    have nv: "numeric_value (digits_part numeric) =
      (if take 2 (take n (chars numeric)) = ''0b'' \<or> take 2 (take n (chars numeric)) = ''0B''
       then toULong (drop 2 (take n (chars numeric))) 2 else toULong (take n (chars numeric)) 0)"
      by (simp only: numeric_value_def x)
    have "ConvertNumericLiteral_doMatch interface =
      (if isDouble numeric \<or> isFloat numeric then Inr []
       else case (if take 2 (take n (chars numeric)) = ''0b'' \<or> take 2 (take n (chars numeric)) = ''0B''
              then toULong (drop 2 (take n (chars numeric))) 2 else toULong (take n (chars numeric)) 0) of
             None \<Rightarrow> Inr []
           | Some v \<Rightarrow>
               Inr (ConvertNumericLiteral_operations (int (length (path interface)) - 1)
                      (literal_start interface) numeric n v))"
      using ne l tk False
      by (simp only: ConvertNumericLiteral_doMatch_def Let_def path_last_def if_False sum.case
          asNumericLiteral.simps option.case ExpressionAST.sel Token.select_convs simp_thms
          flip: n_def st)
    then show ?thesis by (simp only: nv len)
  qed
qed

lemma code_flags:
  assumes "numeric_value (take n spell) = Some v" "n \<le> length spell"
  shows "(n > 2 \<and> spell ! 0 = CHR ''0'' \<and> (spell ! 1 = CHR ''b'' \<or> spell ! 1 = CHR ''B''))
          = (radix_of (take n spell) = Binary)"
    and "(n \<ge> 2 \<and> spell ! 0 = CHR ''0''
           \<and> (of_char (spell ! 1) :: nat) \<ge> of_char CHR ''0''
           \<and> (of_char (spell ! 1) :: nat) \<le> of_char CHR ''7'')
          = (radix_of (take n spell) = Octal)"
proof -
  have len: "length (take n spell) = n" using assms(2) by simp
  have nth: "2 \<le> n \<Longrightarrow> take n spell ! 0 = spell ! 0 \<and> take n spell ! 1 = spell ! 1"
    by simp
  from isBinary_iff [OF assms(1)] len nth
  show "(n > 2 \<and> spell ! 0 = CHR ''0'' \<and> (spell ! 1 = CHR ''b'' \<or> spell ! 1 = CHR ''B''))
          = (radix_of (take n spell) = Binary)"
    by (cases "2 \<le> n") auto
  from isOctal_iff [OF assms(1)] len nth
  show "(n \<ge> 2 \<and> spell ! 0 = CHR ''0''
           \<and> (of_char (spell ! 1) :: nat) \<ge> of_char CHR ''0''
           \<and> (of_char (spell ! 1) :: nat) \<le> of_char CHR ''7'')
          = (radix_of (take n spell) = Octal)"
    by (cases "2 \<le> n") auto
qed

lemma operations_by_radix:
  assumes nv: "numeric_value (digits_part numeric) = Some v"
    and hex: "isHex numeric \<longleftrightarrow> radix_of (digits_part numeric) = Hexadecimal"
    and st: "start = literal_start interface" and pr: "prio = int (length (path interface)) - 1"
  shows "ConvertNumericLiteral_operations prio start numeric (length (digits_part numeric)) v =
           map (conversion interface numeric v)
             (filter (\<lambda>r. r \<noteq> radix_of (digits_part numeric))
                [Hexadecimal, Octal, Decimal, Binary])"
proof -
  define n where "n = strip_suffix (chars numeric) (length (chars numeric))"
  have nle: "n \<le> length (chars numeric)" unfolding n_def by (rule strip_suffix_le)
  have x: "digits_part numeric = take n (chars numeric)" by (simp add: digits_part_def n_def)
  have len: "length (digits_part numeric) = n" using nle by (simp add: x)
  note fl = code_flags [OF nv [unfolded x] nle, folded x]
  have "ConvertNumericLiteral_operations prio start numeric n v =
      (if \<not> radix_of (digits_part numeric) = Hexadecimal
       then [ConvertNumericLiteralOp_new start (start + int n) (''0x'' @ asprintf_lX v)
               ''Convert to Hexadecimal'' prio]
       else [])
      @ (if \<not> radix_of (digits_part numeric) = Octal
         then [ConvertNumericLiteralOp_new start (start + int n) (''0'' @ asprintf_lo v)
                 ''Convert to Octal'' prio]
         else [])
      @ (if \<not> \<not> (radix_of (digits_part numeric) = Binary
                   \<or> radix_of (digits_part numeric) = Octal
                   \<or> radix_of (digits_part numeric) = Hexadecimal)
         then [ConvertNumericLiteralOp_new start (start + int n) (asprintf_lu v)
                 ''Convert to Decimal'' prio]
         else [])
      @ (if \<not> radix_of (digits_part numeric) = Binary
         then [ConvertNumericLiteralOp_new start (start + int n)
                 (''0b'' @ (if v = 0 then ''0''
                            else remove_leading_zeros (bitset_to_string v)))
                 ''Convert to Binary'' prio]
         else [])"
    by (simp only: ConvertNumericLiteral_operations_def Let_def fl hex)
  then show ?thesis
    by (cases "radix_of (digits_part numeric)")
       (simp_all add: len conversion_def ConvertNumericLiteralOp_new_def st pr)
qed

lemma doMatch_by_radix:
  assumes luc: "literal_under_cursor interface numeric"
    and hex: "isHex numeric \<longleftrightarrow> radix_of (digits_part numeric) = Hexadecimal"
  shows "ConvertNumericLiteral_doMatch interface =
     Inr (if isDouble numeric \<or> isFloat numeric then []
          else case numeric_value (digits_part numeric) of
                 None \<Rightarrow> []
               | Some v \<Rightarrow>
                   map (conversion interface numeric v)
                     (filter (\<lambda>r. r \<noteq> radix_of (digits_part numeric))
                        [Hexadecimal, Octal, Decimal, Binary]))"
proof (cases "numeric_value (digits_part numeric)")
  case None
  then show ?thesis by (simp add: doMatch_literal [OF luc])
next
  case (Some v)
  show ?thesis
    by (simp add: doMatch_literal [OF luc] Some operations_by_radix [OF Some hex refl refl])
qed

subsection \<open>ConvertNumericLiteral: the representations read back\<close>


lemma digit_char_not_letter:
  "d < 10 \<Longrightarrow> digit_char d \<notin> {CHR ''x'', CHR ''X'', CHR ''b'', CHR ''B''}"
proof -
  assume "d < 10"
  then have "d < 16" by simp
  from lt16_cases [OF this] \<open>d < 10\<close> show ?thesis by (auto simp: digit_char_def)
qed

lemma digits_of_no_letter:
  assumes "2 \<le> b" "b \<le> 10" "c \<in> set (digits_of b n)"
  shows "c \<notin> {CHR ''x'', CHR ''X'', CHR ''b'', CHR ''B''}"
proof -
  from assms have "b \<le> 16" by simp
  from digits_of_all [OF assms(1) this assms(3)] obtain d where "d < b" "c = digit_char d" by blast
  with assms(2) show ?thesis using digit_char_not_letter [of d] by simp
qed

lemma take2_digits_of_no_prefix:
  assumes "2 \<le> b" "b \<le> 10"
  shows "take 2 (p # digits_of b n) \<notin> {''0x'', ''0X'', ''0b'', ''0B''}"
proof -
  obtain c cs where cs: "digits_of b n = c # cs"
    using digits_of_not_Nil [of b n] by (cases "digits_of b n") auto
  then have "c \<in> set (digits_of b n)" by simp
  from digits_of_no_letter [OF assms this] cs show ?thesis by auto
qed

lemma take2_decimal_no_prefix:
  "take 2 (digits_of 10 n) \<notin> {''0x'', ''0X'', ''0b'', ''0B''}"
proof (cases "digits_of 10 n")
  case Nil
  then show ?thesis by simp
next
  case (Cons a t)
  show ?thesis
  proof (cases t)
    case Nil
    with Cons show ?thesis by simp
  next
    case (Cons c cs)
    with \<open>digits_of 10 n = a # t\<close> have "c \<in> set (digits_of 10 n)" by simp
    then have "c \<notin> {CHR ''x'', CHR ''X'', CHR ''b'', CHR ''B''}"
      by (rule digits_of_no_letter [rotated 2]) simp_all
    with Cons \<open>digits_of 10 n = a # t\<close> show ?thesis by auto
  qed
qed

lemma numeric_value_representation: "numeric_value (representation r v) = Some v"
proof (cases r)
  case Hexadecimal
  have "numeric_value (''0x'' @ asprintf_lX v) = toULong (''0x'' @ asprintf_lX v) 0"
    by (simp add: numeric_value_def)
  with Hexadecimal show ?thesis by (simp only: representation.simps toULong_hex)
next
  case Octal
  have "take 2 (CHR ''0'' # digits_of 8 (unat v)) \<notin> {''0x'', ''0X'', ''0b'', ''0B''}"
    by (rule take2_digits_of_no_prefix) simp_all
  then have "numeric_value (''0'' @ asprintf_lo v) = toULong (''0'' @ asprintf_lo v) 0"
    by (simp add: numeric_value_def asprintf_lo_def)
  with Octal show ?thesis by (simp only: representation.simps toULong_oct)
next
  case Decimal
  have "numeric_value (asprintf_lu v) = toULong (asprintf_lu v) 0"
    using take2_decimal_no_prefix [of "unat v"] by (simp add: numeric_value_def asprintf_lu_def)
  with Decimal show ?thesis by (simp only: representation.simps toULong_dec)
next
  case Binary
  show ?thesis
  proof (cases "v = 0")
    case True
    with Binary show ?thesis
      by (simp add: numeric_value_def toULong_def toULong_digits_def digit_value_def)
  next
    case False
    with Binary show ?thesis by (simp add: numeric_value_def toULong_bin)
  qed
qed

lemma radix_of_representation: "radix_of (representation r v) = r"
proof (cases r)
  case Hexadecimal
  then show ?thesis by (simp add: radix_of_def)
next
  case Octal
  have "take 2 (CHR ''0'' # digits_of 8 (unat v)) \<notin> {''0x'', ''0X'', ''0b'', ''0B''}"
    by (rule take2_digits_of_no_prefix) simp_all
  moreover have "digits_of 8 (unat v) \<noteq> []" by (rule digits_of_not_Nil)
  then have "2 \<le> length (CHR ''0'' # digits_of 8 (unat v))"
    by (cases "digits_of 8 (unat v)") simp_all
  ultimately show ?thesis using Octal by (simp add: radix_of_def asprintf_lo_def)
next
  case Decimal
  note np = take2_decimal_no_prefix [of "unat v"]
  show ?thesis
  proof (cases "v = 0")
    case True
    with Decimal show ?thesis by (simp add: radix_of_def asprintf_lu_def hd_digits_of_zero)
  next
    case False
    then have "0 < unat v" by (simp add: unat_gt_0)
    then have "hd (digits_of 10 (unat v)) \<noteq> CHR ''0''" by (intro hd_digits_of_nonzero) simp_all
    then have "take 1 (digits_of 10 (unat v)) \<noteq> ''0''"
      by (cases "digits_of 10 (unat v)") auto
    with np Decimal show ?thesis by (simp add: radix_of_def asprintf_lu_def)
  qed
next
  case Binary
  then show ?thesis by (simp add: radix_of_def)
qed

lemma binary_leading_one:
  "v \<noteq> 0 \<Longrightarrow> hd (drop 2 (representation Binary v)) = CHR ''1''"
  by (simp add: hd_remove_leading_zeros)

lemma digits_part_digits_of:
  "2 \<le> b \<Longrightarrow> b \<le> 16 \<Longrightarrow> digits_part (integer_literal (p @ digits_of b n) h) = p @ digits_of b n"
  by (simp only: digits_part_def integer_literal_def NumericLiteral.select_convs
      strip_suffix_digits_of take_all order_refl)

subsection \<open>Claim C4\<close>


text \<open>
  C4 (as amended). For a literal under the cursor that is neither double nor float, whose
  digits (the spelling without the trailing suffix characters) are accepted by
  \<open>toULong\<close> with value \<open>v\<close>, \<open>ConvertNumericLiteral::doMatch\<close> offers exactly
  one conversion for each of the radices hexadecimal, octal, decimal and binary, in this
  order, except the radix of the literal; a double or float literal, and a literal whose
  digits \<open>toULong\<close> rejects, gets no operation. Every representation offered reads back
  as the value and has the radix asked for; the binary one of zero is \<open>0b0\<close>, and of
  any other value it starts with the bit one after the prefix.
\<close>

theorem ConvertNumericLiteral_offers_conversions:
  assumes luc: "literal_under_cursor interface numeric"
    and hex: "isHex numeric \<longleftrightarrow> radix_of (digits_part numeric) = Hexadecimal"
  shows "ConvertNumericLiteral_doMatch interface =
           Inr (if isDouble numeric \<or> isFloat numeric then []
                else case numeric_value (digits_part numeric) of
                       None \<Rightarrow> []
                     | Some v \<Rightarrow>
                         map (conversion interface numeric v)
                           (filter (\<lambda>r. r \<noteq> radix_of (digits_part numeric))
                              [Hexadecimal, Octal, Decimal, Binary]))
         \<and> (\<forall>r w. numeric_value (representation r w) = Some w
                  \<and> radix_of (representation r w) = r)
         \<and> representation Binary 0 = ''0b0''
         \<and> (\<forall>w. w \<noteq> 0 \<longrightarrow> hd (drop 2 (representation Binary w)) = CHR ''1'')"
proof (intro conjI allI impI)
  show "ConvertNumericLiteral_doMatch interface =
           Inr (if isDouble numeric \<or> isFloat numeric then []
                else case numeric_value (digits_part numeric) of
                       None \<Rightarrow> []
                     | Some v \<Rightarrow>
                         map (conversion interface numeric v)
                           (filter (\<lambda>r. r \<noteq> radix_of (digits_part numeric))
                              [Hexadecimal, Octal, Decimal, Binary]))"
    by (rule doMatch_by_radix [OF luc hex])
  show "numeric_value (representation r w) = Some w" for r w
    by (rule numeric_value_representation)
  show "radix_of (representation r w) = r" for r w
    by (rule radix_of_representation)
  show "representation Binary 0 = ''0b0''" by simp
  show "hd (drop 2 (representation Binary w)) = CHR ''1''" if "w \<noteq> 0" for w
    using that by (rule binary_leading_one)
qed

lemma digits_part_32uL: "digits_part (integer_literal ''32uL'' False) = ''32''"
  by (simp add: digits_part_def integer_literal_def isxdigit_def)

lemma numeric_value_32: "numeric_value ''32'' = Some 32"
  by (simp add: numeric_value_def toULong_def toULong_digits_def digit_value_def)

theorem ConvertNumericLiteral_offers_conversions_witness:
  "ConvertNumericLiteral_doMatch (literal_interface (integer_literal ''32uL'' False) 100) =
     Inr [\<lparr>priority = 1, description = ''Convert to Hexadecimal'',
            operation = ConvertNumericLiteralOp 100 102 ''0x20''\<rparr>,
          \<lparr>priority = 1, description = ''Convert to Octal'',
            operation = ConvertNumericLiteralOp 100 102 ''040''\<rparr>,
          \<lparr>priority = 1, description = ''Convert to Binary'',
            operation = ConvertNumericLiteralOp 100 102 ''0b100000''\<rparr>]"
proof -
  let ?n = "integer_literal ''32uL'' False"
  let ?i = "literal_interface ?n 100"
  have luc: "literal_under_cursor ?i ?n"
    by (simp add: literal_under_cursor_def literal_interface_def)
  have rad32: "radix_of ''32'' = Decimal" by (simp add: radix_of_def)
  have rad: "radix_of (digits_part ?n) = Decimal"
    by (simp add: digits_part_32uL rad32)
  have hex: "isHex ?n \<longleftrightarrow> radix_of (digits_part ?n) = Hexadecimal"
    by (simp add: rad) (simp add: integer_literal_def)
  have fl: "\<not> (isDouble ?n \<or> isFloat ?n)" by (simp add: integer_literal_def)
  have "ConvertNumericLiteral_doMatch ?i =
          Inr (map (conversion ?i ?n 32) [Hexadecimal, Octal, Binary])"
    using ConvertNumericLiteral_offers_conversions [OF luc hex, THEN conjunct1] fl
    by (simp add: rad32 digits_part_32uL numeric_value_32)
  also have "map (conversion ?i ?n 32) [Hexadecimal, Octal, Binary] =
     [\<lparr>priority = 1, description = ''Convert to Hexadecimal'',
            operation = ConvertNumericLiteralOp 100 102 ''0x20''\<rparr>,
          \<lparr>priority = 1, description = ''Convert to Octal'',
            operation = ConvertNumericLiteralOp 100 102 ''040''\<rparr>,
          \<lparr>priority = 1, description = ''Convert to Binary'',
            operation = ConvertNumericLiteralOp 100 102 ''0b100000''\<rparr>]"
    by (simp add: conversion_def digits_part_32uL literal_start_def literal_interface_def
        asprintf_lX_def asprintf_lo_def digits_of.simps digit_char_def
        remove_leading_zeros_def bitset_to_string_def upt_rec bit_numeral_rec)
  finally show ?thesis .
qed

text \<open>
  The claim as stated fails at the decimal integer literal \<open>18446744073709551616\<close>, which
  is two to the power 64: it is neither double nor float, and no operation is offered.
\<close>

theorem ConvertNumericLiteral_too_large_counterexample:
  "\<not> isDouble (integer_literal ''18446744073709551616'' False)
   \<and> \<not> isFloat (integer_literal ''18446744073709551616'' False)
   \<and> radix_of (digits_part (integer_literal ''18446744073709551616'' False)) = Decimal
   \<and> ConvertNumericLiteral_doMatch
        (literal_interface (integer_literal ''18446744073709551616'' False) 100) = Inr []"
  by (simp add: integer_literal_def literal_interface_def ConvertNumericLiteral_doMatch_def
      path_last_def isxdigit_def toULong_def toULong_digits_def digit_value_def
      digits_part_def radix_of_def)

subsection \<open>Claim C5\<close>


lemma replacement_of_conversion_hd:
  "replacement_of (radix_description r) (conversion i n v r # ops) = Some (representation r v)"
  by (simp add: conversion_def)

lemma convert_hexadecimal_of_decimal:
  assumes luc: "literal_under_cursor i (integer_literal (asprintf_lu w) False)"
  shows "convert_literal ''Convert to Hexadecimal'' i = Some (''0x'' @ asprintf_lX w)"
proof -
  let ?n = "integer_literal (asprintf_lu w) False"
  have dp: "digits_part ?n = asprintf_lu w"
    using digits_part_digits_of [of 10 "[]" "unat w" False] by (simp add: asprintf_lu_def)
  have rad: "radix_of (digits_part ?n) = Decimal"
    unfolding dp using radix_of_representation [of Decimal w] by simp
  have nv: "numeric_value (digits_part ?n) = Some w"
    unfolding dp using numeric_value_representation [of Decimal w] by simp
  have hex: "isHex ?n \<longleftrightarrow> radix_of (digits_part ?n) = Hexadecimal"
    unfolding rad by (simp add: integer_literal_def)
  have fl: "\<not> (isDouble ?n \<or> isFloat ?n)" by (simp add: integer_literal_def)
  have "ConvertNumericLiteral_doMatch i =
          Inr (map (conversion i ?n w) [Hexadecimal, Octal, Binary])"
    using fl unfolding doMatch_by_radix [OF luc hex] rad nv by simp
  then show ?thesis
    by (simp add: convert_literal_def conversion_def)
qed

lemma convert_decimal_of_hexadecimal:
  assumes luc: "literal_under_cursor i (integer_literal (''0x'' @ asprintf_lX w) True)"
  shows "convert_literal ''Convert to Decimal'' i = Some (asprintf_lu w)"
proof -
  let ?n = "integer_literal (''0x'' @ asprintf_lX w) True"
  have dp: "digits_part ?n = ''0x'' @ asprintf_lX w"
    using digits_part_digits_of [of 16 "''0x''" "unat w" True] by (simp add: asprintf_lX_def)
  have rad: "radix_of (digits_part ?n) = Hexadecimal"
    unfolding dp using radix_of_representation [of Hexadecimal w] by simp
  have nv: "numeric_value (digits_part ?n) = Some w"
    unfolding dp using numeric_value_representation [of Hexadecimal w] by simp
  have hex: "isHex ?n \<longleftrightarrow> radix_of (digits_part ?n) = Hexadecimal"
    unfolding rad by (simp add: integer_literal_def)
  have fl: "\<not> (isDouble ?n \<or> isFloat ?n)" by (simp add: integer_literal_def)
  have "ConvertNumericLiteral_doMatch i =
          Inr (map (conversion i ?n w) [Octal, Decimal, Binary])"
    using fl unfolding doMatch_by_radix [OF luc hex] rad nv by simp
  then show ?thesis
    by (simp add: convert_literal_def conversion_def)
qed

text \<open>
  C5. Let \<open>v\<close> be below two to the power 63, and let the decimal literal of value \<open>v\<close>
  be under the cursor. The rule offers its conversion to hexadecimal, with some
  replacement text \<open>hx\<close>; and whenever the hexadecimal literal spelled \<open>hx\<close> is under
  the cursor, the rule offers its conversion to decimal, with a replacement text whose
  numeric value is \<open>v\<close> again.
\<close>

theorem decimal_hexadecimal_round_trip:
  assumes v: "v < 2 ^ 63"
    and luc: "literal_under_cursor i (integer_literal (digits_of 10 v) False)"
  shows "\<exists>hx. convert_literal ''Convert to Hexadecimal'' i = Some hx
           \<and> (\<forall>j. literal_under_cursor j (integer_literal hx True) \<longrightarrow>
                 (\<exists>d w. convert_literal ''Convert to Decimal'' j = Some d
                        \<and> numeric_value d = Some w \<and> unat w = v))"
proof -
  define w :: ulong where "w = of_nat v"
  from v have "v < 2 ^ 64" by simp
  then have uw: "unat w = v" unfolding w_def by (simp add: unat_of_nat)
  then have sp: "asprintf_lu w = digits_of 10 v" by (simp add: asprintf_lu_def)
  have h: "convert_literal ''Convert to Hexadecimal'' i = Some (''0x'' @ asprintf_lX w)"
    using luc by (intro convert_hexadecimal_of_decimal) (simp add: sp)
  have "\<exists>d w'. convert_literal ''Convert to Decimal'' j = Some d
                \<and> numeric_value d = Some w' \<and> unat w' = v"
    if "literal_under_cursor j (integer_literal (''0x'' @ asprintf_lX w) True)" for j
    using convert_decimal_of_hexadecimal [OF that] numeric_value_representation [of Decimal w] uw
    by auto
  with h show ?thesis by blast
qed

theorem decimal_hexadecimal_round_trip_witness:
  "convert_literal ''Convert to Hexadecimal''
     (literal_interface (integer_literal ''255'' False) 7) = Some ''0xFF''
   \<and> (\<exists>d w. convert_literal ''Convert to Decimal''
               (literal_interface (integer_literal ''0xFF'' True) 7) = Some d
             \<and> numeric_value d = Some w \<and> unat w = 255)"
proof -
  let ?i = "literal_interface (integer_literal ''255'' False) 7"
  let ?j = "literal_interface (integer_literal ''0xFF'' True) 7"
  have d: "digits_of 10 255 = ''255''" by (simp add: digits_of.simps digit_char_def)
  have v: "(255::nat) < 2 ^ 63" by simp
  have luc: "literal_under_cursor ?i (integer_literal (digits_of 10 255) False)"
    by (simp add: d literal_under_cursor_def literal_interface_def)
  have hx: "convert_literal ''Convert to Hexadecimal'' ?i = Some ''0xFF''"
    by (simp add: convert_literal_def ConvertNumericLiteral_doMatch_def literal_interface_def
        integer_literal_def path_last_def isxdigit_def toULong_def toULong_digits_def
        digit_value_def ConvertNumericLiteral_operations_def ConvertNumericLiteralOp_new_def
        asprintf_lX_def digits_of.simps digit_char_def Let_def)
  have lj: "literal_under_cursor ?j (integer_literal ''0xFF'' True)"
    by (simp add: literal_under_cursor_def literal_interface_def)
  from decimal_hexadecimal_round_trip [OF v luc] hx lj show ?thesis by auto
qed

subsection \<open>SplitIfStatement: the two loops\<close>


lemma path_at_Inr: "0 \<le> i \<Longrightarrow> i < int (length p) \<Longrightarrow> path_at p i = Inr (p ! nat i)"
  by (simp add: path_at_def)

lemma SplitIfStatement_pattern_result:
  assumes "-1 \<le> index" "index < int (length p)"
  shows "\<exists>pattern i. SplitIfStatement_pattern p index = Inr (pattern, i)
           \<and> -1 \<le> i \<and> i \<le> index
           \<and> (case pattern of None \<Rightarrow> i = -1
               | Some st \<Rightarrow> 0 \<le> i \<and> asIfStatement (p ! nat i) = Some st)
           \<and> (\<forall>m. i < m \<and> m \<le> index \<longrightarrow> asIfStatement (p ! nat m) = None)"
  using assms
proof (induction p index rule: SplitIfStatement_pattern.induct)
  case (1 p index)
  show ?case
  proof (cases "index = -1")
    case True
    have "SplitIfStatement_pattern p (- 1) = Inr (None, - 1)"
      by (simp add: SplitIfStatement_pattern.simps [of p "- 1"])
    with True show ?thesis by auto
  next
    case False
    with 1(2,3) have at: "path_at p index = Inr (p ! nat index)" by (simp add: path_at_def)
    show ?thesis
    proof (cases "asIfStatement (p ! nat index)")
      case (Some st)
      with False at 1(2) show ?thesis
        by (auto simp: SplitIfStatement_pattern.simps [of p index])
    next
      case None
      from False 1(2,3) have "-1 \<le> index - 1" "index - 1 < int (length p)" by simp_all
      from "1.IH" [OF False at None this]
      obtain pattern i where r: "SplitIfStatement_pattern p (index - 1) = Inr (pattern, i)"
        and i: "-1 \<le> i" "i \<le> index - 1"
        and pt: "(case pattern of None \<Rightarrow> i = -1
               | Some st \<Rightarrow> 0 \<le> i \<and> asIfStatement (p ! nat i) = Some st)"
        and no: "\<forall>m. i < m \<and> m \<le> index - 1 \<longrightarrow> asIfStatement (p ! nat m) = None"
        by blast
      have eq: "SplitIfStatement_pattern p index = Inr (pattern, i)"
        using False at None r by (simp add: SplitIfStatement_pattern.simps [of p index])
      have "asIfStatement (p ! nat m) = None" if "i < m" "m \<le> index" for m
      proof (cases "m = index")
        case True
        with None show ?thesis by simp
      next
        case False
        with that no show ?thesis by simp
      qed
      with eq i pt show ?thesis by auto
    qed
  qed
qed


lemma SplitIfStatement_chain_result:
  assumes "0 \<le> index"
    and "\<forall>k'. sk = Some k' \<longrightarrow> k' = T_AMPER_AMPER \<or> k' = T_PIPE_PIPE"
  shows "\<exists>ops. SplitIfStatement_chain I pat sk index = Inr ops
           \<and> (\<forall>op \<in> set ops. \<exists>j c k. index \<le> j \<and> j < int (length (path I))
                 \<and> ops = [SplitIfStatementOp_new j pat c]
                 \<and> asBinaryExpression (path I ! nat j) = Some c
                 \<and> isCursorOn I (binary_op_token c)
                 \<and> (\<forall>m. index \<le> m \<and> m \<le> j \<longrightarrow> kind_at I m = Some k)
                 \<and> (k = T_AMPER_AMPER \<or> k = T_PIPE_PIPE)
                 \<and> (case sk of Some k' \<Rightarrow> k = k'
                     | None \<Rightarrow> \<not> (k = T_AMPER_AMPER \<and> else_statement pat \<noteq> None)))"
  using assms
proof (induction I pat sk index rule: SplitIfStatement_chain.induct)
  case (1 I pat sk index)
  show ?case
  proof (cases "index < int (length (path I))")
    case False
    then show ?thesis by (simp add: SplitIfStatement_chain.simps [of I pat sk index])
  next
    case True
    with 1(2) have at: "path_at (path I) index = Inr (path I ! nat index)" by (simp add: path_at_def)
    show ?thesis
    proof (cases "asBinaryExpression (path I ! nat index)")
      case None
      with True at show ?thesis by (simp add: SplitIfStatement_chain.simps [of I pat sk index])
    next
      case (Some c)
      define binaryToken where "binaryToken = tokenAt (currentFile I) (binary_op_token c)"
      define accepted where "accepted =
                 (case sk of
                    None \<Rightarrow>
                      if kind binaryToken \<noteq> T_AMPER_AMPER \<and> kind binaryToken \<noteq> T_PIPE_PIPE
                      then None
                      else if kind binaryToken = T_AMPER_AMPER \<and> else_statement pat \<noteq> None
                      then None
                      else Some (kind binaryToken)
                  | Some k \<Rightarrow> if k \<noteq> kind binaryToken then None else Some k)"
      have unfold: "SplitIfStatement_chain I pat sk index =
         (case accepted of
                None \<Rightarrow> Inr []
              | Some k \<Rightarrow>
                  if isCursorOn I (binary_op_token c)
                  then Inr [SplitIfStatementOp_new index pat c]
                  else SplitIfStatement_chain I pat (Some k) (index + 1))"
        using True
        by (simp only: SplitIfStatement_chain.simps [of I pat sk index] not_True_eq_False
            if_False at sum.case Some option.case Let_def accepted_def binaryToken_def)
      have ka: "kind_at I index = Some (kind binaryToken)"
        by (simp add: kind_at_def Some binaryToken_def)
      show ?thesis
      proof (cases accepted)
        case None
        with unfold show ?thesis by simp
      next
        case (Some k)
        have kk: "k = kind binaryToken" "k = T_AMPER_AMPER \<or> k = T_PIPE_PIPE"
          "(case sk of Some k' \<Rightarrow> k = k'
                     | None \<Rightarrow> \<not> (k = T_AMPER_AMPER \<and> else_statement pat \<noteq> None))"
          using Some 1(3) unfolding accepted_def
          by (auto split: option.splits if_splits)
        show ?thesis
        proof (cases "isCursorOn I (binary_op_token c)")
          case cur: True
          have "\<forall>m. index \<le> m \<and> m \<le> index \<longrightarrow> kind_at I m = Some k"
            using ka kk(1) by auto
          with cur unfold Some kk True \<open>asBinaryExpression (path I ! nat index) = Some c\<close>
          show ?thesis by auto
        next
          case cur: False
          have "0 \<le> index + 1" using 1(2) by simp
          moreover have "\<forall>k'. Some k = Some k' \<longrightarrow> k' = T_AMPER_AMPER \<or> k' = T_PIPE_PIPE"
            using kk(2) by simp
          moreover have nn: "\<not> \<not> index < int (length (path I))" using True by simp
          moreover have acc: "(case sk of
                    None \<Rightarrow>
                      if kind (tokenAt (currentFile I) (binary_op_token c)) \<noteq> T_AMPER_AMPER
                         \<and> kind (tokenAt (currentFile I) (binary_op_token c)) \<noteq> T_PIPE_PIPE
                      then None
                      else if kind (tokenAt (currentFile I) (binary_op_token c)) = T_AMPER_AMPER
                              \<and> else_statement pat \<noteq> None
                      then None
                      else Some (kind (tokenAt (currentFile I) (binary_op_token c)))
                  | Some k \<Rightarrow> if k \<noteq> kind (tokenAt (currentFile I) (binary_op_token c))
                              then None else Some k) = Some k"
            using Some unfolding accepted_def binaryToken_def .
          ultimately obtain ops where ops: "SplitIfStatement_chain I pat (Some k) (index + 1) = Inr ops"
            and P: "\<forall>op \<in> set ops. \<exists>j c' k2. index + 1 \<le> j \<and> j < int (length (path I))
                 \<and> ops = [SplitIfStatementOp_new j pat c']
                 \<and> asBinaryExpression (path I ! nat j) = Some c'
                 \<and> isCursorOn I (binary_op_token c')
                 \<and> (\<forall>m. index + 1 \<le> m \<and> m \<le> j \<longrightarrow> kind_at I m = Some k2)
                 \<and> (k2 = T_AMPER_AMPER \<or> k2 = T_PIPE_PIPE)
                 \<and> k2 = k"
            using "1.IH" [OF nn at \<open>asBinaryExpression (path I ! nat index) = Some c\<close> refl refl acc cur]
            by auto
          have eq: "SplitIfStatement_chain I pat sk index = Inr ops"
            using unfold Some cur ops by simp
          have "\<exists>j c' k2. index \<le> j \<and> j < int (length (path I))
                 \<and> ops = [SplitIfStatementOp_new j pat c']
                 \<and> asBinaryExpression (path I ! nat j) = Some c'
                 \<and> isCursorOn I (binary_op_token c')
                 \<and> (\<forall>m. index \<le> m \<and> m \<le> j \<longrightarrow> kind_at I m = Some k2)
                 \<and> (k2 = T_AMPER_AMPER \<or> k2 = T_PIPE_PIPE)
                 \<and> (case sk of Some k' \<Rightarrow> k2 = k'
                     | None \<Rightarrow> \<not> (k2 = T_AMPER_AMPER \<and> else_statement pat \<noteq> None))"
            if "op \<in> set ops" for op
          proof -
            from P that obtain j c' where j: "index + 1 \<le> j" "j < int (length (path I))"
              "ops = [SplitIfStatementOp_new j pat c']"
              "asBinaryExpression (path I ! nat j) = Some c'"
              "isCursorOn I (binary_op_token c')"
              "\<forall>m. index + 1 \<le> m \<and> m \<le> j \<longrightarrow> kind_at I m = Some k"
              by blast
            have "kind_at I m = Some k" if "index \<le> m" "m \<le> j" for m
            proof (cases "m = index")
              case True
              with ka kk(1) show ?thesis by simp
            next
              case False
              with that j(6) show ?thesis by simp
            qed
            with j kk(2,3) show ?thesis by (intro exI [of _ j] exI [of _ c'] exI [of _ k]) auto
          qed
          with eq show ?thesis by blast
        qed
      qed
    qed
  qed
qed

subsection \<open>Claim C1\<close>


lemma SplitIfStatement_doMatch_result:
  "\<exists>ops. SplitIfStatement_doMatch I = Inr ops
     \<and> (\<forall>op \<in> set ops. \<exists>i j pattern c k.
            0 \<le> i \<and> i < j \<and> j < int (length (path I))
          \<and> asIfStatement (path I ! nat i) = Some pattern
          \<and> (\<forall>m. i < m \<and> m < int (length (path I)) \<longrightarrow> asIfStatement (path I ! nat m) = None)
          \<and> statement pattern \<noteq> None
          \<and> (\<forall>m. i < m \<and> m \<le> j \<longrightarrow> kind_at I m = Some k)
          \<and> (k = T_AMPER_AMPER \<or> k = T_PIPE_PIPE)
          \<and> \<not> (k = T_AMPER_AMPER \<and> else_statement pattern \<noteq> None)
          \<and> asBinaryExpression (path I ! nat j) = Some c
          \<and> isCursorOn I (binary_op_token c)
          \<and> ops = [SplitIfStatementOp_new j pattern c])"
proof -
  have "-1 \<le> int (length (path I)) - 1" "int (length (path I)) - 1 < int (length (path I))"
    by simp_all
  from SplitIfStatement_pattern_result [OF this]
  obtain pattern i where r: "SplitIfStatement_pattern (path I) (int (length (path I)) - 1)
                               = Inr (pattern, i)"
    and i: "-1 \<le> i" "i \<le> int (length (path I)) - 1"
    and pt: "(case pattern of None \<Rightarrow> i = -1
               | Some st \<Rightarrow> 0 \<le> i \<and> asIfStatement (path I ! nat i) = Some st)"
    and no: "\<forall>m. i < m \<and> m \<le> int (length (path I)) - 1
                 \<longrightarrow> asIfStatement (path I ! nat m) = None"
    by blast
  show ?thesis
  proof (cases pattern)
    case None
    with r show ?thesis by (simp add: SplitIfStatement_doMatch_def)
  next
    case (Some pat)
    with pt have i0: "0 \<le> i" and ip: "asIfStatement (path I ! nat i) = Some pat" by simp_all
    show ?thesis
    proof (cases "statement pat = None")
      case True
      with r Some show ?thesis by (simp add: SplitIfStatement_doMatch_def)
    next
      case False
      have eq: "SplitIfStatement_doMatch I = SplitIfStatement_chain I pat None (i + 1)"
        using r Some False by (auto simp: SplitIfStatement_doMatch_def)
      have "0 \<le> i + 1" using i0 by simp
      moreover have "\<forall>k'. (None :: TokenKind option) = Some k'
                      \<longrightarrow> k' = T_AMPER_AMPER \<or> k' = T_PIPE_PIPE" by simp
      ultimately obtain ops where ops: "SplitIfStatement_chain I pat None (i + 1) = Inr ops"
        and P: "\<forall>op \<in> set ops. \<exists>j c k. i + 1 \<le> j \<and> j < int (length (path I))
                 \<and> ops = [SplitIfStatementOp_new j pat c]
                 \<and> asBinaryExpression (path I ! nat j) = Some c
                 \<and> isCursorOn I (binary_op_token c)
                 \<and> (\<forall>m. i + 1 \<le> m \<and> m \<le> j \<longrightarrow> kind_at I m = Some k)
                 \<and> (k = T_AMPER_AMPER \<or> k = T_PIPE_PIPE)
                 \<and> \<not> (k = T_AMPER_AMPER \<and> else_statement pat \<noteq> None)"
        using SplitIfStatement_chain_result [of "i + 1" None I pat] by auto
      have "\<exists>i j pattern c k.
            0 \<le> i \<and> i < j \<and> j < int (length (path I))
          \<and> asIfStatement (path I ! nat i) = Some pattern
          \<and> (\<forall>m. i < m \<and> m < int (length (path I)) \<longrightarrow> asIfStatement (path I ! nat m) = None)
          \<and> statement pattern \<noteq> None
          \<and> (\<forall>m. i < m \<and> m \<le> j \<longrightarrow> kind_at I m = Some k)
          \<and> (k = T_AMPER_AMPER \<or> k = T_PIPE_PIPE)
          \<and> \<not> (k = T_AMPER_AMPER \<and> else_statement pattern \<noteq> None)
          \<and> asBinaryExpression (path I ! nat j) = Some c
          \<and> isCursorOn I (binary_op_token c)
          \<and> ops = [SplitIfStatementOp_new j pattern c]" if "op \<in> set ops" for op
      proof -
        from P that obtain j c k where j: "i + 1 \<le> j" "j < int (length (path I))"
          "ops = [SplitIfStatementOp_new j pat c]"
          "asBinaryExpression (path I ! nat j) = Some c"
          "isCursorOn I (binary_op_token c)"
          "\<forall>m. i + 1 \<le> m \<and> m \<le> j \<longrightarrow> kind_at I m = Some k"
          "k = T_AMPER_AMPER \<or> k = T_PIPE_PIPE"
          "\<not> (k = T_AMPER_AMPER \<and> else_statement pat \<noteq> None)"
          by blast
        have a: "\<forall>m. i < m \<and> m < int (length (path I)) \<longrightarrow> asIfStatement (path I ! nat m) = None"
          using no by simp
        have b: "\<forall>m. i < m \<and> m \<le> j \<longrightarrow> kind_at I m = Some k" using j(6) by simp
        from i0 j ip a b False show ?thesis
          by (intro exI [of _ i] exI [of _ j] exI [of _ pat] exI [of _ c] exI [of _ k]) simp
      qed
      moreover have "SplitIfStatement_doMatch I = Inr ops" using eq ops by simp
      ultimately show ?thesis by blast
    qed
  qed
qed

lemma SplitIfStatement_doMatch_and:
  assumes p: "path I = pre @ [Statement pattern, Expression (BinaryExpressionAST l t r)]"
    and "if": "asIfStatement (Statement pattern) = Some pattern"
    and body: "statement pattern \<noteq> None"
    and k: "kind (tokenAt (currentFile I) t) = T_AMPER_AMPER"
    and cur: "isCursorOn I t"
  shows "SplitIfStatement_doMatch I =
           Inr (if else_statement pattern = None
                then [SplitIfStatementOp_new (int (length pre) + 1) pattern
                        (BinaryExpressionAST l t r)]
                else [])"
proof -
  let ?n = "int (length pre)"
  have len: "int (length (path I)) = ?n + 2" by (simp add: p)
  have at1: "path_at (path I) (?n + 1) = Inr (Expression (BinaryExpressionAST l t r))"
    by (simp add: path_at_def p nth_append nat_add_distrib)
  have at0: "path_at (path I) ?n = Inr (Statement pattern)"
    by (simp add: path_at_def p nth_append)
  have "SplitIfStatement_pattern (path I) (?n + 1) = SplitIfStatement_pattern (path I) ?n"
    by (subst SplitIfStatement_pattern.simps) (simp add: at1)
  also have "\<dots> = Inr (Some pattern, ?n)"
    by (subst SplitIfStatement_pattern.simps) (simp add: at0 "if")
  finally have "SplitIfStatement_pattern (path I) (?n + 1) = Inr (Some pattern, ?n)" .
  moreover have "int (length (path I)) - 1 = ?n + 1" by (simp add: p)
  ultimately have pat: "SplitIfStatement_pattern (path I) (int (length (path I)) - 1)
                       = Inr (Some pattern, ?n)"
    by (simp only:)
  have "SplitIfStatement_chain I pattern None (?n + 1) =
           Inr (if else_statement pattern = None
                then [SplitIfStatementOp_new (?n + 1) pattern (BinaryExpressionAST l t r)]
                else [])"
    by (subst SplitIfStatement_chain.simps) (simp add: len at1 k cur)
  with pat body show ?thesis
    by (simp add: SplitIfStatement_doMatch_def)
qed

text \<open>
  C1. \<open>SplitIfStatement::doMatch\<close> always returns, with at most one operation. When it
  offers one, the path holds an innermost \<open>if\<close> statement (with a body), all nodes from
  below it down to the node of the operation are binary expressions whose operators have
  one and the same kind, \<open>&&\<close> or \<open>||\<close>, the cursor is on the operator of that node,
  and the kind is not \<open>&&\<close> when the \<open>if\<close> statement has an else branch. In
  particular, with \<open>if (a && b)\<close> and the cursor on \<open>&&\<close>, exactly one operation is
  offered when there is no else branch and none when there is one.
\<close>

theorem SplitIfStatement_single_operator_kind:
  "(\<exists>ops. SplitIfStatement_doMatch I = Inr ops
     \<and> (\<forall>op \<in> set ops. \<exists>i j pattern c k.
            0 \<le> i \<and> i < j \<and> j < int (length (path I))
          \<and> asIfStatement (path I ! nat i) = Some pattern
          \<and> (\<forall>m. i < m \<and> m < int (length (path I)) \<longrightarrow> asIfStatement (path I ! nat m) = None)
          \<and> statement pattern \<noteq> None
          \<and> (\<forall>m. i < m \<and> m \<le> j \<longrightarrow> kind_at I m = Some k)
          \<and> (k = T_AMPER_AMPER \<or> k = T_PIPE_PIPE)
          \<and> \<not> (k = T_AMPER_AMPER \<and> else_statement pattern \<noteq> None)
          \<and> asBinaryExpression (path I ! nat j) = Some c
          \<and> isCursorOn I (binary_op_token c)
          \<and> ops = [SplitIfStatementOp_new j pattern c]))
   \<and> (path I = pre @ [Statement pattern', Expression (BinaryExpressionAST l t r)]
        \<and> asIfStatement (Statement pattern') = Some pattern'
        \<and> statement pattern' \<noteq> None
        \<and> kind (tokenAt (currentFile I) t) = T_AMPER_AMPER
        \<and> isCursorOn I t
      \<longrightarrow> SplitIfStatement_doMatch I =
           Inr (if else_statement pattern' = None
                then [SplitIfStatementOp_new (int (length pre) + 1) pattern'
                        (BinaryExpressionAST l t r)]
                else []))"
  using SplitIfStatement_doMatch_result [of I] SplitIfStatement_doMatch_and [of I pre pattern' l t r]
  by blast


theorem SplitIfStatement_single_operator_kind_witness:
  "SplitIfStatement_doMatch
     (interface_of
        [Statement (IfStatementAST 0 9 1 5 (Some (ExpressionStatementAST 6 9 None)) 0 None),
         Expression (BinaryExpressionAST None 3 None)]
        (\<lambda>t. token_of_kind (if t = 3 then T_AMPER_AMPER else T_OTHER)) (\<lambda>t. t = 3))
     = Inr [SplitIfStatementOp_new 1
              (IfStatementAST 0 9 1 5 (Some (ExpressionStatementAST 6 9 None)) 0 None)
              (BinaryExpressionAST None 3 None)]
   \<and> SplitIfStatement_doMatch
     (interface_of
        [Statement (IfStatementAST 0 19 1 5 (Some (ExpressionStatementAST 6 9 None)) 10
                      (Some (ExpressionStatementAST 15 19 None))),
         Expression (BinaryExpressionAST None 3 None)]
        (\<lambda>t. token_of_kind (if t = 3 then T_AMPER_AMPER else T_OTHER)) (\<lambda>t. t = 3))
     = Inr []"
proof -
  let ?tk = "\<lambda>t::int. token_of_kind (if t = 3 then T_AMPER_AMPER else T_OTHER)"
  let ?cu = "\<lambda>t::int. t = 3"
  let ?b = "BinaryExpressionAST None 3 None"
  let ?s1 = "IfStatementAST 0 9 1 5 (Some (ExpressionStatementAST 6 9 None)) 0 None"
  let ?s2 = "IfStatementAST 0 19 1 5 (Some (ExpressionStatementAST 6 9 None)) 10
                      (Some (ExpressionStatementAST 15 19 None))"
  have h1: "path (interface_of [Statement ?s1, Expression ?b] ?tk ?cu)
              = [] @ [Statement ?s1, Expression ?b]
        \<and> asIfStatement (Statement ?s1) = Some ?s1
        \<and> statement ?s1 \<noteq> None
        \<and> kind (tokenAt (currentFile (interface_of [Statement ?s1, Expression ?b] ?tk ?cu)) 3)
            = T_AMPER_AMPER
        \<and> isCursorOn (interface_of [Statement ?s1, Expression ?b] ?tk ?cu) 3"
    by (simp add: interface_of_def token_of_kind_def)
  have h2: "path (interface_of [Statement ?s2, Expression ?b] ?tk ?cu)
              = [] @ [Statement ?s2, Expression ?b]
        \<and> asIfStatement (Statement ?s2) = Some ?s2
        \<and> statement ?s2 \<noteq> None
        \<and> kind (tokenAt (currentFile (interface_of [Statement ?s2, Expression ?b] ?tk ?cu)) 3)
            = T_AMPER_AMPER
        \<and> isCursorOn (interface_of [Statement ?s2, Expression ?b] ?tk ?cu) 3"
    by (simp add: interface_of_def token_of_kind_def)
  from SplitIfStatement_single_operator_kind
         [of "interface_of [Statement ?s1, Expression ?b] ?tk ?cu" "[]" ?s1 None 3 None,
          THEN conjunct2, rule_format, OF h1]
       SplitIfStatement_single_operator_kind
         [of "interface_of [Statement ?s2, Expression ?b] ?tk ?cu" "[]" ?s2 None 3 None,
          THEN conjunct2, rule_format, OF h2]
  show ?thesis by simp
qed

lemma else_chain_spec:
  "case else_chain es tok sts of (sts', e', tok') \<Rightarrow>
     (\<exists>extra. sts' = sts @ extra
        \<and> (\<forall>s \<in> set extra. single_statement_body (statement s))
        \<and> (\<forall>x. e' = Some x \<longrightarrow> asIfStatement (Statement x) = None)
        \<and> (else_chain_needs_braces es
             \<longleftrightarrow> extra \<noteq> [] \<or> (\<exists>x. e' = Some x \<and> asCompoundStatement x = None)))"
proof (induction es tok sts rule: else_chain.induct)
  case (1 elseToken statements)
  then show ?case by simp
next
  case (2 s e it rp st et es elseToken statements)
  then show ?case
    by (cases "single_statement_body st") (auto split: prod.splits)
qed simp_all

subsection \<open>Claim C6\<close>


lemma braces_needed_Nil: "braces_needed []"
  by (simp add: braces_needed_def)

lemma checkControlStatementsHelper_None:
  assumes "path I \<noteq> []" "asControlStatement K (last (path I)) = None"
  shows "checkControlStatementsHelper K I = Inr (False, [])"
  using assms by (simp add: checkControlStatementsHelper_def path_last_def)

lemma checkControlStatementsHelper_Some:
  assumes ne: "path I \<noteq> []" and st: "asControlStatement K (last (path I)) = Some st"
  shows "\<exists>ops. checkControlStatementsHelper K I = Inr (True, ops)
           \<and> (ops = [] \<longleftrightarrow>
                \<not> (isCursorOn I (triggerToken K st) \<and> single_statement_body (statement st))
                \<and> \<not> (K = IfStatement \<and> else_chain_needs_braces (else_statement st)))
           \<and> braces_needed ops"
proof -
  define first where "first =
    (if isCursorOn I (triggerToken K st) \<and> single_statement_body (statement st) then [st] else [])"
  have f1: "\<forall>s \<in> set first. single_statement_body (statement s)"
    by (simp add: first_def)
  have f2: "first = [] \<longleftrightarrow> \<not> (isCursorOn I (triggerToken K st) \<and> single_statement_body (statement st))"
    by (simp add: first_def)
  show ?thesis
  proof (cases "K = IfStatement")
    case False
    then have "checkControlStatementsHelper K I =
        Inr (True, if first \<noteq> [] then [AddBracesToControlStatementOp_new first None 0] else [])"
      using ne st by (simp add: checkControlStatementsHelper_def path_last_def first_def)
    with False f1 f2 show ?thesis
      by (auto simp: braces_needed_def)
  next
    case True
    obtain sts' e' tok' where ec: "else_chain (else_statement st) (else_token st) first = (sts', e', tok')"
      by (cases "else_chain (else_statement st) (else_token st) first") auto
    from else_chain_spec [where es = "else_statement st" and tok = "else_token st" and sts = first] ec
    obtain extra where ex: "sts' = first @ extra"
      "\<forall>s \<in> set extra. single_statement_body (statement s)"
      "\<forall>x. e' = Some x \<longrightarrow> asIfStatement (Statement x) = None"
      "else_chain_needs_braces (else_statement st)
         \<longleftrightarrow> extra \<noteq> [] \<or> (\<exists>x. e' = Some x \<and> asCompoundStatement x = None)"
      by auto
    define e'' where "e'' = (case e' of None \<Rightarrow> None
                               | Some x \<Rightarrow> if asCompoundStatement x \<noteq> None then None else Some x)"
    define tok'' where "tok'' = (case e' of None \<Rightarrow> tok'
                               | Some x \<Rightarrow> if asCompoundStatement x \<noteq> None then 0 else tok')"
    have eq: "checkControlStatementsHelper K I =
        Inr (True, if sts' \<noteq> [] \<or> e'' \<noteq> None
                   then [AddBracesToControlStatementOp_new sts' e'' tok''] else [])"
    proof (cases "isCursorOn I (if_token st) \<and> single_statement_body (statement st)")
      case c: True
      with ec True have "else_chain (else_statement st) (else_token st) [st] = (sts', e', tok')"
        by (simp add: first_def)
      with c ne st True ex(3) show ?thesis
        by (auto simp: checkControlStatementsHelper_def path_last_def
              e''_def tok''_def split: option.splits)
    next
      case c: False
      with ec True have "else_chain (else_statement st) (else_token st) [] = (sts', e', tok')"
        by (simp add: first_def)
      with c ne st True ex(3) show ?thesis
        by (auto simp: checkControlStatementsHelper_def path_last_def
              e''_def tok''_def split: option.splits)
    qed
    have e2: "\<forall>x. e'' = Some x \<longrightarrow> asIfStatement (Statement x) = None \<and> asCompoundStatement x = None"
      using ex(3) by (auto simp: e''_def split: option.splits if_splits)
    have e3: "e'' \<noteq> None \<longleftrightarrow> (\<exists>x. e' = Some x \<and> asCompoundStatement x = None)"
      by (auto simp: e''_def split: option.splits if_splits)
    have s1: "\<forall>s \<in> set sts'. single_statement_body (statement s)"
      using f1 ex(1,2) by auto
    let ?ops = "if sts' \<noteq> [] \<or> e'' \<noteq> None
                then [AddBracesToControlStatementOp_new sts' e'' tok''] else []"
    have bn: "braces_needed ?ops"
    proof (cases "sts' \<noteq> [] \<or> e'' \<noteq> None")
      case False
      then show ?thesis by (simp add: braces_needed_Nil)
    next
      case c: True
      have "\<exists>sts e tok. [AddBracesToControlStatementOp_new sts' e'' tok'']
                             = [AddBracesToControlStatementOp_new sts e tok]
               \<and> (sts \<noteq> [] \<or> e \<noteq> None)
               \<and> (\<forall>s \<in> set sts. single_statement_body (statement s))
               \<and> (\<forall>x. e = Some x \<longrightarrow>
                      asIfStatement (Statement x) = None \<and> asCompoundStatement x = None)"
        using c s1 e2 by (intro exI [of _ sts'] exI [of _ e''] exI [of _ tok'']) simp
      with c show ?thesis by (simp add: braces_needed_def)
    qed
    have "sts' = [] \<longleftrightarrow> first = [] \<and> extra = []" using ex(1) by simp
    with e3 ex(4) f2 True have em: "?ops = [] \<longleftrightarrow>
                \<not> (isCursorOn I (triggerToken K st) \<and> single_statement_body (statement st))
                \<and> \<not> (K = IfStatement \<and> else_chain_needs_braces (else_statement st))"
      by auto
    from eq bn em show ?thesis by blast
  qed
qed

lemma checkControlStatements_result:
  assumes "path I \<noteq> []"
  shows "\<exists>ops. checkControlStatements Ks I = Inr ops \<and> braces_needed ops"
proof (induction Ks)
  case Nil
  then show ?case by (simp add: braces_needed_Nil)
next
  case (Cons K Ks)
  show ?case
  proof (cases "asControlStatement K (last (path I))")
    case None
    from checkControlStatementsHelper_None [OF assms None] Cons show ?thesis by auto
  next
    case (Some st)
    from checkControlStatementsHelper_Some [OF assms Some] show ?thesis by auto
  qed
qed

lemma AddBraces_doMatch_if:
  assumes ne: "path I \<noteq> []" and st: "asIfStatement (last (path I)) = Some st"
  shows "\<exists>ops. AddBracesToControlStatement_doMatch I = Inr ops
           \<and> (ops = [] \<longleftrightarrow>
                \<not> (isCursorOn I (if_token st) \<and> single_statement_body (statement st))
                \<and> \<not> else_chain_needs_braces (else_statement st))"
proof -
  from st have "asControlStatement IfStatement (last (path I)) = Some st" by simp
  from checkControlStatementsHelper_Some [OF ne this] ne show ?thesis
    by (auto simp: AddBracesToControlStatement_doMatch_def)
qed

lemma AddBraces_doMatch_result:
  "\<exists>ops. AddBracesToControlStatement_doMatch I = Inr ops \<and> braces_needed ops"
proof (cases "path I = []")
  case True
  then show ?thesis by (simp add: AddBracesToControlStatement_doMatch_def braces_needed_Nil)
next
  case False
  from checkControlStatements_result [OF False,
      of "[IfStatement, WhileStatement, ForStatement, RangeBasedForStatement, DoStatement]"]
  show ?thesis
    by (simp only: AddBracesToControlStatement_doMatch_def False if_False)
qed

text \<open>
  C6. With an \<open>if\<close> statement as the last node of the path,
  \<open>AddBracesToControlStatement\<close> offers no operation exactly when neither the cursor
  is on \<open>if\<close> with a single statement as body nor the else chain needs braces: so an
  \<open>if\<close> statement whose body is a compound statement already, with an else chain that
  needs no wrapping, gets none. And whatever the path, an operation is offered only for
  matched statements whose bodies are single statements, or for a trailing else branch
  that is neither an \<open>if\<close> nor a compound statement, and at least one of them is there.
\<close>

theorem AddBracesToControlStatement_idempotent:
  "(path I \<noteq> [] \<and> asIfStatement (last (path I)) = Some st \<longrightarrow>
      (\<exists>ops. AddBracesToControlStatement_doMatch I = Inr ops
           \<and> (ops = [] \<longleftrightarrow>
                \<not> (isCursorOn I (if_token st) \<and> single_statement_body (statement st))
                \<and> \<not> else_chain_needs_braces (else_statement st))))
   \<and> (\<exists>ops. AddBracesToControlStatement_doMatch I = Inr ops
         \<and> (\<forall>op \<in> set ops. \<exists>sts e tok.
               ops = [AddBracesToControlStatementOp_new sts e tok]
             \<and> (sts \<noteq> [] \<or> e \<noteq> None)
             \<and> (\<forall>s \<in> set sts. single_statement_body (statement s))
             \<and> (\<forall>x. e = Some x \<longrightarrow>
                    asIfStatement (Statement x) = None \<and> asCompoundStatement x = None)))"
  using AddBraces_doMatch_if [of I st] AddBraces_doMatch_result [of I]
  unfolding braces_needed_def by blast

theorem AddBracesToControlStatement_idempotent_witness:
  "AddBracesToControlStatement_doMatch
     (interface_of
        [Statement (IfStatementAST 0 9 1 5 (Some (CompoundStatementAST 6 9 6 [])) 0 None)]
        (\<lambda>t. token_of_kind T_OTHER) (\<lambda>t. t = 1)) = Inr []"
proof -
  let ?st = "IfStatementAST 0 9 1 5 (Some (CompoundStatementAST 6 9 6 [])) 0 None"
  let ?I = "interface_of [Statement ?st] (\<lambda>t. token_of_kind T_OTHER) (\<lambda>t. t = 1)"
  have h: "path ?I \<noteq> [] \<and> asIfStatement (last (path ?I)) = Some ?st"
    by (simp add: interface_of_def)
  from AddBracesToControlStatement_idempotent [of ?I ?st, THEN conjunct1, rule_format, OF h]
  obtain ops where ops: "AddBracesToControlStatement_doMatch ?I = Inr ops"
    and e: "ops = [] \<longleftrightarrow>
                \<not> (isCursorOn ?I (if_token ?st) \<and> single_statement_body (statement ?st))
                \<and> \<not> else_chain_needs_braces (else_statement ?st)"
    by blast
  from e have "ops = []" by (simp add: single_statement_body_def)
  with ops show ?thesis by simp
qed

subsection \<open>CompleteSwitchCaseStatement: the missing values\<close>






subsection \<open>ChangeSet: a single edit\<close>



lemma ChangeSet_apply_replace:
  "ChangeSet_apply (ChangeSet_replace s e t []) buffer
     = (Inr (), take (nat s) buffer @ t @ drop (nat e) buffer)"
  by (simp add: ChangeSet_apply_def ChangeSet_replace_def)

subsection \<open>Claims C9 and C10\<close>


lemma overlapping_Cons:
  "overlapping (e # es) \<longleftrightarrow> (\<exists>j < length es. conflict e (es ! j)) \<or> overlapping es"
proof
  assume "overlapping (e # es)"
  then obtain i j where ij: "i < j" "j < length (e # es)" "conflict ((e # es) ! i) ((e # es) ! j)"
    unfolding overlapping_def by blast
  from ij(1) obtain j' where j': "j = Suc j'" by (cases j) auto
  show "(\<exists>j < length es. conflict e (es ! j)) \<or> overlapping es"
  proof (cases i)
    case 0
    with ij j' show ?thesis by auto
  next
    case (Suc i')
    with ij j' have "i' < j'" "j' < length es" "conflict (es ! i') (es ! j')" by auto
    then show ?thesis unfolding overlapping_def by blast
  qed
next
  assume "(\<exists>j < length es. conflict e (es ! j)) \<or> overlapping es"
  then show "overlapping (e # es)"
  proof
    assume "\<exists>j < length es. conflict e (es ! j)"
    then obtain j where "j < length es" "conflict e (es ! j)" by blast
    then have "0 < Suc j" "Suc j < length (e # es)" "conflict ((e # es) ! 0) ((e # es) ! Suc j)"
      by auto
    then show ?thesis unfolding overlapping_def by blast
  next
    assume "overlapping es"
    then obtain i j where "i < j" "j < length es" "conflict (es ! i) (es ! j)"
      unfolding overlapping_def by blast
    then have "Suc i < Suc j" "Suc j < length (e # es)"
      "conflict ((e # es) ! Suc i) ((e # es) ! Suc j)" by auto
    then show ?thesis unfolding overlapping_def by blast
  qed
qed

lemma hasOverlap_iff: "hasOverlap changes \<longleftrightarrow> overlapping changes"
proof (induction changes)
  case Nil
  then show ?case by (simp add: overlapping_def)
next
  case (Cons e es)
  have "list_ex (conflict e) es \<longleftrightarrow> (\<exists>j < length es. conflict e (es ! j))"
    unfolding list_ex_iff by (metis in_set_conv_nth)
  with Cons show ?case by (simp add: overlapping_Cons)
qed

text \<open>
  C9. When two primitives of a change set have intersecting source ranges, \<open>apply\<close>
  fails with the overlap error and returns the buffer as it was; otherwise it succeeds.
  So either the whole change set is applied or nothing of it.
\<close>

theorem ChangeSet_apply_atomic:
  "(overlapping changes \<longrightarrow> ChangeSet_apply changes buffer = (Inl OverlapError, buffer))
   \<and> (\<not> overlapping changes \<longrightarrow> fst (ChangeSet_apply changes buffer) = Inr ())"
  by (simp add: ChangeSet_apply_def hasOverlap_iff)

theorem ChangeSet_apply_atomic_witness:
  "overlapping (ChangeSet_remove 2 5 (ChangeSet_replace 0 3 ''x'' []))
   \<and> ChangeSet_apply (ChangeSet_remove 2 5 (ChangeSet_replace 0 3 ''x'' [])) ''abcdef''
       = (Inl OverlapError, ''abcdef'')
   \<and> \<not> overlapping (ChangeSet_remove 3 5 (ChangeSet_replace 0 3 ''x'' []))
   \<and> fst (ChangeSet_apply (ChangeSet_remove 3 5 (ChangeSet_replace 0 3 ''x'' [])) ''abcdef'')
       = Inr ()"
proof -
  let ?a = "ChangeSet_remove 2 5 (ChangeSet_replace 0 3 ''x'' [])"
  let ?b = "ChangeSet_remove 3 5 (ChangeSet_replace 0 3 ''x'' [])"
  have a: "overlapping ?a"
    unfolding hasOverlap_iff [symmetric]
    by (simp add: ChangeSet_remove_def ChangeSet_replace_def conflict_def ranges_intersect_def)
  have b: "\<not> overlapping ?b"
    unfolding hasOverlap_iff [symmetric]
    by (simp add: ChangeSet_remove_def ChangeSet_replace_def conflict_def ranges_intersect_def)
  from ChangeSet_apply_atomic [of ?a "''abcdef''", THEN conjunct1, rule_format, OF a]
       ChangeSet_apply_atomic [of ?b "''abcdef''", THEN conjunct2, rule_format, OF b]
       a b
  show ?thesis by simp
qed

lemma ConvertNumericLiteral_operations_shape:
  assumes "op \<in> set (ConvertNumericLiteral_operations prio start numeric n v)"
  shows "\<exists>replacement. operation op = ConvertNumericLiteralOp start (start + int n) replacement"
  using assms
  by (auto simp: ConvertNumericLiteral_operations_def ConvertNumericLiteralOp_new_def Let_def
      split: if_splits)

lemma digits_part_prefix:
  "chars numeric = digits_part numeric @ drop (length (digits_part numeric)) (chars numeric)"
  "length (digits_part numeric) \<le> length (chars numeric)"
  "length (digits_part numeric) = strip_suffix (chars numeric) (length (chars numeric))"
proof -
  have le: "strip_suffix (chars numeric) (length (chars numeric)) \<le> length (chars numeric)"
    by (rule strip_suffix_le)
  then show l: "length (digits_part numeric) = strip_suffix (chars numeric) (length (chars numeric))"
    by (simp add: digits_part_def)
  with le show "length (digits_part numeric) \<le> length (chars numeric)" by simp
  show "chars numeric = digits_part numeric @ drop (length (digits_part numeric)) (chars numeric)"
    unfolding l by (simp add: digits_part_def)
qed

lemma suffix_no_xdigit:
  assumes "c \<in> set (drop (length (digits_part numeric)) (chars numeric))"
  shows "\<not> isxdigit c"
proof -
  let ?n = "length (digits_part numeric)" and ?s = "chars numeric"
  from assms obtain i where i: "i < length (drop ?n ?s)" "c = drop ?n ?s ! i"
    by (auto simp: in_set_conv_nth)
  then have c: "c = ?s ! (?n + i)" and lt: "?n + i < length ?s" by auto
  have "strip_suffix ?s (length ?s) \<le> ?n + i" by (simp add: digits_part_prefix(3))
  from strip_suffix_dropped [OF this lt] c show ?thesis by simp
qed

text \<open>
  C10. Let the numeric literal under the cursor stand in the buffer at its start position.
  Every operation of \<open>ConvertNumericLiteral::doMatch\<close> replaces the range from the start
  of the literal to the end of its digits; the characters of the literal behind that range
  are no hexadecimal digits (they are its suffix); and performing the operation leaves the
  buffer before the literal, the suffix and the buffer behind the literal as they were.
\<close>

theorem ConvertNumericLiteral_replaces_digits_only:
  assumes luc: "literal_under_cursor I numeric"
    and ops: "ConvertNumericLiteral_doMatch I = Inr ops" and op: "op \<in> set ops"
    and pos: "0 \<le> literal_start I"
    and buf: "drop (nat (literal_start I)) buffer = chars numeric @ rest"
  shows "\<exists>replacement.
           operation op = ConvertNumericLiteralOp (literal_start I)
                            (literal_start I + int (length (digits_part numeric))) replacement
         \<and> length (digits_part numeric) \<le> length (chars numeric)
         \<and> (\<forall>c \<in> set (drop (length (digits_part numeric)) (chars numeric)). \<not> isxdigit c)
         \<and> ConvertNumericLiteralOp_perform (literal_start I)
              (literal_start I + int (length (digits_part numeric))) replacement buffer
             = (Inr (), take (nat (literal_start I)) buffer @ replacement
                        @ drop (length (digits_part numeric)) (chars numeric) @ rest)"
proof -
  let ?n = "length (digits_part numeric)" and ?s = "literal_start I"
  from ops op doMatch_literal [OF luc]
  obtain v where "op \<in> set (ConvertNumericLiteral_operations (int (length (path I)) - 1)
                              ?s numeric ?n v)"
    by (auto split: if_splits option.splits)
  from ConvertNumericLiteral_operations_shape [OF this]
  obtain replacement where r: "operation op = ConvertNumericLiteralOp ?s (?s + int ?n) replacement"
    by blast
  have "drop (nat (?s + int ?n)) buffer = drop ?n (drop (nat ?s) buffer)"
    using pos by (simp add: nat_add_distrib add.commute)
  also have "\<dots> = drop ?n (chars numeric) @ rest"
    using digits_part_prefix(2) [of numeric] by (simp add: buf)
  finally have "ConvertNumericLiteralOp_perform ?s (?s + int ?n) replacement buffer
             = (Inr (), take (nat ?s) buffer @ replacement @ drop ?n (chars numeric) @ rest)"
    by (simp add: ConvertNumericLiteralOp_perform_def ChangeSet_apply_replace)
  with r digits_part_prefix(2) [of numeric] suffix_no_xdigit [of _ numeric]
  show ?thesis by blast
qed

theorem ConvertNumericLiteral_replaces_digits_only_witness:
  "ConvertNumericLiteral_doMatch (literal_interface (integer_literal ''32uL'' False) 4)
     = Inr [conversion (literal_interface (integer_literal ''32uL'' False) 4)
              (integer_literal ''32uL'' False) 32 Hexadecimal,
            conversion (literal_interface (integer_literal ''32uL'' False) 4)
              (integer_literal ''32uL'' False) 32 Octal,
            conversion (literal_interface (integer_literal ''32uL'' False) 4)
              (integer_literal ''32uL'' False) 32 Binary]
   \<and> (\<exists>replacement.
         operation (conversion (literal_interface (integer_literal ''32uL'' False) 4)
                      (integer_literal ''32uL'' False) 32 Hexadecimal)
           = ConvertNumericLiteralOp 4 6 replacement
       \<and> ConvertNumericLiteralOp_perform 4 6 replacement ''x = 32uL;''
           = (Inr (), ''x = '' @ replacement @ ''uL;''))"
proof -
  let ?n = "integer_literal ''32uL'' False"
  let ?I = "literal_interface ?n 4"
  let ?op = "conversion ?I ?n 32 Hexadecimal"
  have luc: "literal_under_cursor ?I ?n"
    by (simp add: literal_under_cursor_def literal_interface_def)
  have dp: "digits_part ?n = ''32''"
    by (simp add: digits_part_def integer_literal_def isxdigit_def)
  have rad32: "radix_of ''32'' = Decimal" by (simp add: radix_of_def)
  have hex: "isHex ?n \<longleftrightarrow> radix_of (digits_part ?n) = Hexadecimal"
    unfolding dp rad32 by (simp add: integer_literal_def)
  have nv: "numeric_value ''32'' = Some 32"
    by (simp add: numeric_value_def toULong_def toULong_digits_def digit_value_def)
  have ops: "ConvertNumericLiteral_doMatch ?I
               = Inr [?op, conversion ?I ?n 32 Octal, conversion ?I ?n 32 Binary]"
    unfolding doMatch_by_radix [OF luc hex] dp rad32 nv by (simp add: integer_literal_def)
  have op: "?op \<in> set [?op, conversion ?I ?n 32 Octal, conversion ?I ?n 32 Binary]" by simp
  have st: "literal_start ?I = 4" by (simp add: literal_start_def literal_interface_def)
  have pos: "0 \<le> literal_start ?I" by (simp add: st)
  have buf: "drop (nat (literal_start ?I)) ''x = 32uL;'' = chars ?n @ '';''"
    unfolding st by (simp add: integer_literal_def)
  note t = ConvertNumericLiteral_replaces_digits_only [OF luc ops op pos buf, unfolded st dp]
  from t ops show ?thesis by (auto simp: integer_literal_def)
qed

subsection \<open>The loops over the path\<close>


lemma innermost_append:
  "innermost cast (nodes @ [node]) =
     (case cast node of Some x \<Rightarrow> Some x | None \<Rightarrow> innermost cast nodes)"
  by (induction nodes) (auto split: option.splits)

lemma innermost_take:
  assumes "0 \<le> i" "i < int (length p)"
  shows "innermost cast (take (nat (i + 1)) p) =
     (case cast (p ! nat i) of Some x \<Rightarrow> Some x | None \<Rightarrow> innermost cast (take (nat i) p))"
proof -
  from assms have "nat (i + 1) = Suc (nat i)" "nat i < length p" by simp_all
  then have "take (nat (i + 1)) p = take (nat i) p @ [p ! nat i]"
    by (simp add: take_Suc_conv_app_nth)
  then show ?thesis by (simp only: innermost_append)
qed

lemma checkDeclarationForSplitD:
  assumes "checkDeclarationForSplit d"
  shows "semicolon_token d \<noteq> 0 \<and> 2 \<le> length (declarator_list d)"
proof (cases d)
  case (SimpleDeclarationAST specs tx decls semi)
  with assms have "semi \<noteq> 0" "decls \<noteq> []" "tl decls \<noteq> []"
    by (auto split: if_splits)
  then have "2 \<le> length decls" by (cases decls; cases "tl decls") auto
  with \<open>semi \<noteq> 0\<close> SimpleDeclarationAST show ?thesis by simp
next
  case OtherDeclarationAST
  with assms show ?thesis by simp
qed

lemma SplitSimpleDeclaration_loop_result:
  assumes "-1 \<le> index" "index < int (length (path I))"
  shows "\<exists>ops. SplitSimpleDeclaration_loop I c index = Inr ops
           \<and> (\<forall>op \<in> set ops. \<exists>j d. 0 \<le> j \<and> j \<le> index
                 \<and> asSimpleDeclaration (path I ! nat j) = Some d
                 \<and> innermost asSimpleDeclaration (take (nat (index + 1)) (path I)) = Some d
                 \<and> checkDeclarationForSplit d
                 \<and> ops = [SplitSimpleDeclarationOp_new j d])"
  using assms
proof (induction I c index rule: SplitSimpleDeclaration_loop.induct)
  case (1 I c index)
  show ?case
  proof (cases "index = -1")
    case True
    have "SplitSimpleDeclaration_loop I c (- 1) = Inr []"
      by (simp add: SplitSimpleDeclaration_loop.simps [of I c "- 1"])
    with True show ?thesis by simp
  next
    case False
    with 1(3,4) have at: "path_at (path I) index = Inr (path I ! nat index)"
      by (simp add: path_at_def)
    from False 1(3,4) have bounds: "0 \<le> index" "index < int (length (path I))" by simp_all
    note inner = innermost_take [OF bounds, of asSimpleDeclaration]
    from False 1(3,4) have next_bounds: "-1 \<le> index - 1" "index - 1 < int (length (path I))"
      by simp_all
    show ?thesis
    proof (cases "asCoreDeclarator (path I ! nat index)")
      case (Some coreDecl)
      then have nd: "asSimpleDeclaration (path I ! nat index) = None"
        by (cases "path I ! nat index") auto
      from "1.IH"(2) [OF False at Some next_bounds]
      obtain ops where r: "SplitSimpleDeclaration_loop I (Some coreDecl) (index - 1) = Inr ops"
        and P: "\<forall>op \<in> set ops. \<exists>j d. 0 \<le> j \<and> j \<le> index - 1
                 \<and> asSimpleDeclaration (path I ! nat j) = Some d
                 \<and> innermost asSimpleDeclaration (take (nat (index - 1 + 1)) (path I)) = Some d
                 \<and> checkDeclarationForSplit d
                 \<and> ops = [SplitSimpleDeclarationOp_new j d]"
        by blast
      have eq: "SplitSimpleDeclaration_loop I c index = Inr ops"
        using False at Some r by (simp add: SplitSimpleDeclaration_loop.simps [of I c index])
      have "innermost asSimpleDeclaration (take (nat (index + 1)) (path I))
              = innermost asSimpleDeclaration (take (nat (index - 1 + 1)) (path I))"
        using inner nd by simp
      with P eq show ?thesis by (auto intro: order_trans)
    next
      case None
      show ?thesis
      proof (cases "asSimpleDeclaration (path I ! nat index)")
        case nd: None
        from "1.IH"(1) [OF False at None nd next_bounds]
        obtain ops where r: "SplitSimpleDeclaration_loop I c (index - 1) = Inr ops"
          and P: "\<forall>op \<in> set ops. \<exists>j d. 0 \<le> j \<and> j \<le> index - 1
                 \<and> asSimpleDeclaration (path I ! nat j) = Some d
                 \<and> innermost asSimpleDeclaration (take (nat (index - 1 + 1)) (path I)) = Some d
                 \<and> checkDeclarationForSplit d
                 \<and> ops = [SplitSimpleDeclarationOp_new j d]"
          by blast
        have eq: "SplitSimpleDeclaration_loop I c index = Inr ops"
          using False at None nd r by (simp add: SplitSimpleDeclaration_loop.simps [of I c index])
        have "innermost asSimpleDeclaration (take (nat (index + 1)) (path I))
              = innermost asSimpleDeclaration (take (nat (index - 1 + 1)) (path I))"
          using inner nd by simp
        with P eq show ?thesis by (auto intro: order_trans)
      next
        case (Some simpleDecl)
        have inn: "innermost asSimpleDeclaration (take (nat (index + 1)) (path I)) = Some simpleDecl"
          using inner Some by simp
        have "SplitSimpleDeclaration_loop I c index = Inr []
              \<or> (checkDeclarationForSplit simpleDecl
                 \<and> SplitSimpleDeclaration_loop I c index
                     = Inr [SplitSimpleDeclarationOp_new index simpleDecl])"
          using False at None Some
          by (simp add: SplitSimpleDeclaration_loop.simps [of I c index] Let_def)
        with inn Some bounds show ?thesis by auto
      qed
    qed
  qed
qed

lemma SplitSimpleDeclaration_doMatch_result:
  "\<exists>ops. SplitSimpleDeclaration_doMatch I = Inr ops
     \<and> (\<forall>op \<in> set ops. \<exists>j d. 0 \<le> j \<and> j < int (length (path I))
           \<and> asSimpleDeclaration (path I ! nat j) = Some d
           \<and> innermost asSimpleDeclaration (path I) = Some d
           \<and> checkDeclarationForSplit d
           \<and> ops = [SplitSimpleDeclarationOp_new j d])"
proof -
  have "-1 \<le> int (length (path I)) - 1" "int (length (path I)) - 1 < int (length (path I))"
    by simp_all
  from SplitSimpleDeclaration_loop_result [OF this, of None]
  show ?thesis by (fastforce simp: SplitSimpleDeclaration_doMatch_def)
qed


lemma CompleteSwitchCaseStatement_loop_result:
  assumes "-1 \<le> depth" "depth < int (length (path I))"
  shows "\<exists>ops. CompleteSwitchCaseStatement_loop I depth = Inr ops
           \<and> (\<forall>op \<in> set ops. \<exists>j sw compound vs. 0 \<le> j \<and> j \<le> depth
                 \<and> asSwitchStatement (path I ! nat j) = Some sw
                 \<and> innermost asSwitchStatement (take (nat (depth + 1)) (path I)) = Some sw
                 \<and> ops = [CompleteSwitchCaseStatementOp_new j compound vs])"
  using assms
proof (induction I depth rule: CompleteSwitchCaseStatement_loop.induct)
  case (1 I depth)
  show ?case
  proof (cases "depth = -1")
    case True
    have "CompleteSwitchCaseStatement_loop I (- 1) = Inr []"
      by (simp add: CompleteSwitchCaseStatement_loop.simps [of I "- 1"])
    with True show ?thesis by simp
  next
    case False
    with 1(2,3) have bounds: "0 \<le> depth" "depth < int (length (path I))" by simp_all
    then have at: "path_at (path I) depth = Inr (path I ! nat depth)"
      by (simp add: path_at_def)
    note inner = innermost_take [OF bounds, of asSwitchStatement]
    from bounds have nn: "\<not> \<not> 0 \<le> depth" by simp
    from bounds have next_bounds: "-1 \<le> depth - 1" "depth - 1 < int (length (path I))"
      by simp_all
    show ?thesis
    proof (cases "asSwitchStatement (path I ! nat depth)")
      case None
      from "1.IH" [OF nn at None next_bounds]
      obtain ops where r: "CompleteSwitchCaseStatement_loop I (depth - 1) = Inr ops"
        and P: "\<forall>op \<in> set ops. \<exists>j sw compound vs. 0 \<le> j \<and> j \<le> depth - 1
                 \<and> asSwitchStatement (path I ! nat j) = Some sw
                 \<and> innermost asSwitchStatement (take (nat (depth - 1 + 1)) (path I)) = Some sw
                 \<and> ops = [CompleteSwitchCaseStatementOp_new j compound vs]"
        by blast
      have eq: "CompleteSwitchCaseStatement_loop I depth = Inr ops"
        using bounds at None r by (simp add: CompleteSwitchCaseStatement_loop.simps [of I depth])
      have ie: "innermost asSwitchStatement (take (nat (depth + 1)) (path I))
              = innermost asSwitchStatement (take (nat (depth - 1 + 1)) (path I))"
        using inner None by simp
      have "\<forall>op \<in> set ops. \<exists>j sw compound vs. 0 \<le> j \<and> j \<le> depth
                 \<and> asSwitchStatement (path I ! nat j) = Some sw
                 \<and> innermost asSwitchStatement (take (nat (depth + 1)) (path I)) = Some sw
                 \<and> ops = [CompleteSwitchCaseStatementOp_new j compound vs]"
      proof
        fix op
        assume "op \<in> set ops"
        with P obtain j sw compound vs where j: "0 \<le> j" "j \<le> depth - 1"
          "asSwitchStatement (path I ! nat j) = Some sw"
          "innermost asSwitchStatement (take (nat (depth - 1 + 1)) (path I)) = Some sw"
          "ops = [CompleteSwitchCaseStatementOp_new j compound vs]"
          by blast
        from j(2) have "j \<le> depth" by simp
        with j(1,3,5) j(4) [folded ie]
        show "\<exists>j sw compound vs. 0 \<le> j \<and> j \<le> depth
                 \<and> asSwitchStatement (path I ! nat j) = Some sw
                 \<and> innermost asSwitchStatement (take (nat (depth + 1)) (path I)) = Some sw
                 \<and> ops = [CompleteSwitchCaseStatementOp_new j compound vs]"
          by blast
      qed
      with eq show ?thesis by blast
    next
      case (Some sw)
      have inn: "innermost asSwitchStatement (take (nat (depth + 1)) (path I)) = Some sw"
        using inner Some by simp
      have "CompleteSwitchCaseStatement_loop I depth = Inr []
            \<or> (\<exists>compound vs. CompleteSwitchCaseStatement_loop I depth
                  = Inr [CompleteSwitchCaseStatementOp_new depth compound vs])"
        using bounds at Some
        by (auto simp: CompleteSwitchCaseStatement_loop.simps [of I depth] Let_def
            split: option.splits)
      with inn Some bounds show ?thesis by auto
    qed
  qed
qed

lemma CompleteSwitchCaseStatement_doMatch_result:
  "\<exists>ops. CompleteSwitchCaseStatement_doMatch I = Inr ops
     \<and> (\<forall>op \<in> set ops. \<exists>j sw compound vs. 0 \<le> j \<and> j < int (length (path I))
           \<and> asSwitchStatement (path I ! nat j) = Some sw
           \<and> innermost asSwitchStatement (path I) = Some sw
           \<and> ops = [CompleteSwitchCaseStatementOp_new j compound vs])"
proof (cases "path I = []")
  case True
  then show ?thesis by (simp add: CompleteSwitchCaseStatement_doMatch_def)
next
  case False
  have "-1 \<le> int (length (path I)) - 1" "int (length (path I)) - 1 < int (length (path I))"
    by simp_all
  from CompleteSwitchCaseStatement_loop_result [OF this] False
  show ?thesis by (fastforce simp: CompleteSwitchCaseStatement_doMatch_def)
qed

lemma ExtractFunction_refFuncDef_result:
  assumes "-1 \<le> i" "i < int (length p)"
  shows "ExtractFunction_refFuncDef p i = Inr (innermost asFunctionDefinition (take (nat (i + 1)) p))"
  using assms
proof (induction p i rule: ExtractFunction_refFuncDef.induct)
  case (1 p i)
  show ?case
  proof (cases "i = -1")
    case True
    have "ExtractFunction_refFuncDef p (- 1) = Inr None"
      by (simp add: ExtractFunction_refFuncDef.simps [of p "- 1"])
    with True show ?thesis by simp
  next
    case False
    with 1(2,3) have bounds: "0 \<le> i" "i < int (length p)" by simp_all
    then have at: "path_at p i = Inr (p ! nat i)" by (simp add: path_at_def)
    note inner = innermost_take [OF bounds, of asFunctionDefinition]
    from bounds have nn: "\<not> \<not> 0 \<le> i" by simp
    from bounds have next_bounds: "-1 \<le> i - 1" "i - 1 < int (length p)" by simp_all
    show ?thesis
    proof (cases "asFunctionDefinition (p ! nat i)")
      case None
      from "1.IH" [OF nn at None next_bounds]
      have "ExtractFunction_refFuncDef p (i - 1)
              = Inr (innermost asFunctionDefinition (take (nat i) p))" by simp
      then show ?thesis
        using bounds at None inner by (simp add: ExtractFunction_refFuncDef.simps [of p i])
    next
      case (Some f)
      then show ?thesis
        using bounds at inner by (simp add: ExtractFunction_refFuncDef.simps [of p i])
    qed
  qed
qed

lemma ExtractLiteralAsParameter_function_result:
  assumes "0 \<le> i" "i < int (length p)"
  shows "\<exists>r. ExtractLiteralAsParameter_function p i = Inr r
           \<and> (\<forall>f. r = Some f \<longrightarrow>
                 innermost asFunctionDefinition (take (nat (i + 1)) p) = Some f)"
  using assms
proof (induction p i rule: ExtractLiteralAsParameter_function.induct)
  case (1 p i)
  from 1(2,3) have at: "path_at p i = Inr (p ! nat i)" by (simp add: path_at_def)
  note inner = innermost_take [OF 1(2,3), of asFunctionDefinition]
  show ?case
  proof (cases "asFunctionDefinition (p ! nat i)")
    case (Some f)
    then show ?thesis
      using at inner by (simp add: ExtractLiteralAsParameter_function.simps [of p i])
  next
    case None
    show ?thesis
    proof (cases "asLambdaExpression (p ! nat i) \<noteq> None \<or> i - 1 < 0")
      case True
      then have "ExtractLiteralAsParameter_function p i = Inr None"
        using at None by (auto simp: ExtractLiteralAsParameter_function.simps [of p i])
      then show ?thesis by simp
    next
      case False
      then have l: "\<not> asLambdaExpression (p ! nat i) \<noteq> None" and g: "\<not> i - 1 < 0" by simp_all
      from g 1(3) have next_bounds: "0 \<le> i - 1" "i - 1 < int (length p)" by simp_all
      from "1.IH" [OF at None l g next_bounds]
      obtain r where r: "ExtractLiteralAsParameter_function p (i - 1) = Inr r"
        and P: "\<forall>f. r = Some f \<longrightarrow>
                 innermost asFunctionDefinition (take (nat (i - 1 + 1)) p) = Some f"
        by blast
      have eq: "ExtractLiteralAsParameter_function p i = Inr r"
        using at None l g r by (simp add: ExtractLiteralAsParameter_function.simps [of p i])
      with P inner None show ?thesis by simp
    qed
  qed
qed

lemma ExtractLiteralAsParameter_doMatch_result:
  "\<exists>ops. ExtractLiteralAsParameter_doMatch I = Inr ops
     \<and> (\<forall>op \<in> set ops. \<exists>literal f.
           innermost asFunctionDefinition (butlast (path I)) = Some f
         \<and> \<not> ellipsis_parameter f
         \<and> ops = [ExtractLiteralAsParameterOp_new (int (length (path I)) - 1) literal f])"
proof (cases "length (path I) < 2")
  case True
  then show ?thesis by (simp add: ExtractLiteralAsParameter_doMatch_def)
next
  case False
  then have ne: "path I \<noteq> []" by auto
  from False have "0 \<le> int (length (path I)) - 2"
    "int (length (path I)) - 2 < int (length (path I))" by simp_all
  from ExtractLiteralAsParameter_function_result [OF this]
  obtain r where r: "ExtractLiteralAsParameter_function (path I) (int (length (path I)) - 2) = Inr r"
    and P: "\<forall>f. r = Some f \<longrightarrow>
       innermost asFunctionDefinition (take (nat (int (length (path I)) - 2 + 1)) (path I)) = Some f"
    by blast
  have "nat (int (length (path I)) - 2 + 1) = length (path I) - 1" using False by simp
  then have tk: "take (nat (int (length (path I)) - 2 + 1)) (path I) = butlast (path I)"
    by (simp add: butlast_conv_take)
  show ?thesis
  proof (cases r)
    case None
    with r False ne show ?thesis
      by (simp add: ExtractLiteralAsParameter_doMatch_def Let_def path_last_def
          split: option.splits)
  next
    case (Some f)
    with P tk have inn: "innermost asFunctionDefinition (butlast (path I)) = Some f" by simp
    show ?thesis
    proof (cases "ellipsis_parameter f")
      case True
      then have "ExtractLiteralAsParameter_doMatch I = Inr []"
        using r Some False ne
        by (auto simp: ExtractLiteralAsParameter_doMatch_def Let_def path_last_def
            ellipsis_parameter_def
            split: option.splits list.splits PostfixDeclaratorAST.splits)
      then show ?thesis by simp
    next
      case ne': False
      have "ExtractLiteralAsParameter_doMatch I = Inr []
            \<or> (\<exists>literal. ExtractLiteralAsParameter_doMatch I
                 = Inr [ExtractLiteralAsParameterOp_new (int (length (path I)) - 1) literal f])"
        using r Some False ne
        by (auto simp: ExtractLiteralAsParameter_doMatch_def Let_def path_last_def
            split: option.splits list.splits PostfixDeclaratorAST.splits)
      with inn ne' show ?thesis by auto
    qed
  qed
qed

subsection \<open>What the rules return\<close>


lemma ConvertNumericLiteral_operations_priority:
  assumes "op \<in> set (ConvertNumericLiteral_operations prio start numeric n v)"
  shows "priority op = prio"
  using assms
  by (auto simp: ConvertNumericLiteral_operations_def ConvertNumericLiteralOp_new_def Let_def
      split: if_splits)

lemma ConvertNumericLiteral_doMatch_result:
  "\<exists>ops. ConvertNumericLiteral_doMatch I = Inr ops
     \<and> (\<forall>op \<in> set ops. priority op = int (length (path I)) - 1
           \<and> path I \<noteq> [] \<and> asNumericLiteral (last (path I)) \<noteq> None)"
proof (cases "path I = []")
  case True
  then show ?thesis by (simp add: ConvertNumericLiteral_doMatch_def)
next
  case False
  show ?thesis
  proof (cases "asNumericLiteral (last (path I))")
    case None
    with False show ?thesis by (simp add: ConvertNumericLiteral_doMatch_def path_last_def)
  next
    case (Some literal)
    have "ConvertNumericLiteral_doMatch I = Inr []
       \<or> (\<exists>start numeric n v. ConvertNumericLiteral_doMatch I
            = Inr (ConvertNumericLiteral_operations (int (length (path I)) - 1) start numeric n v))"
      using False Some
      by (auto simp: ConvertNumericLiteral_doMatch_def path_last_def Let_def
          split: option.splits)
    with False Some show ?thesis
      by (auto dest: ConvertNumericLiteral_operations_priority)
  qed
qed


lemma ExtractFunction_refFuncDef_path:
  "ExtractFunction_refFuncDef (path I) (int (length (path I)) - 1)
     = Inr (innermost asFunctionDefinition (path I))"
proof -
  have "-1 \<le> int (length (path I)) - 1" "int (length (path I)) - 1 < int (length (path I))"
    by simp_all
  from ExtractFunction_refFuncDef_result [OF this] show ?thesis by simp
qed

lemma ExtractFunction_doMatch_result:
  "\<exists>ops. ExtractFunction_doMatch prio I = Inr ops"
  by (auto simp: ExtractFunction_doMatch_def Let_def ExtractFunction_refFuncDef_path
      split: option.splits prod.splits)

lemma ExtractFunction_doMatch_template:
  assumes "innermost asFunctionDefinition (path I) = Some f"
    and "fd_symbol f = Some symbol" and "enclosingScope_asTemplate symbol"
  shows "ExtractFunction_doMatch prio I = Inr []"
  using assms
  by (simp add: ExtractFunction_doMatch_def Let_def ExtractFunction_refFuncDef_path)

lemma SplitSimpleDeclaration_doMatch_unmet:
  assumes "innermost asSimpleDeclaration (path I) = Some d"
    and "semicolon_token d = 0 \<or> length (declarator_list d) < 2"
  shows "SplitSimpleDeclaration_doMatch I = Inr []"
proof -
  from SplitSimpleDeclaration_doMatch_result [of I]
  obtain ops where ops: "SplitSimpleDeclaration_doMatch I = Inr ops"
    and P: "\<forall>op \<in> set ops. \<exists>j d. 0 \<le> j \<and> j < int (length (path I))
           \<and> asSimpleDeclaration (path I ! nat j) = Some d
           \<and> innermost asSimpleDeclaration (path I) = Some d
           \<and> checkDeclarationForSplit d
           \<and> ops = [SplitSimpleDeclarationOp_new j d]"
    by blast
  have "ops = []"
  proof (rule ccontr)
    assume "ops \<noteq> []"
    then obtain op where "op \<in> set ops" by (cases ops) auto
    with P assms(1) have "checkDeclarationForSplit d" by auto
    from checkDeclarationForSplitD [OF this] assms(2) show False by simp
  qed
  with ops show ?thesis by simp
qed

lemma ExtractLiteralAsParameter_doMatch_unmet:
  assumes "innermost asFunctionDefinition (butlast (path I)) = Some f"
    and "ellipsis_parameter f"
  shows "ExtractLiteralAsParameter_doMatch I = Inr []"
proof -
  from ExtractLiteralAsParameter_doMatch_result [of I]
  obtain ops where ops: "ExtractLiteralAsParameter_doMatch I = Inr ops"
    and P: "\<forall>op \<in> set ops. \<exists>literal f.
           innermost asFunctionDefinition (butlast (path I)) = Some f
         \<and> \<not> ellipsis_parameter f
         \<and> ops = [ExtractLiteralAsParameterOp_new (int (length (path I)) - 1) literal f]"
    by blast
  have "ops = []"
  proof (rule ccontr)
    assume "ops \<noteq> []"
    then obtain op where "op \<in> set ops" by (cases ops) auto
    with P assms show False by auto
  qed
  with ops show ?thesis by simp
qed

subsection \<open>Claim C7\<close>








subsection \<open>Claim C8\<close>


text \<open>
  C8. Every rule of the embedding returns: its \<open>doMatch\<close> never fails on the path,
  whatever the interface. Where the preconditions are unmet, it returns with no
  operation: \<open>SplitSimpleDeclaration\<close> when the innermost simple declaration of the
  path has no semicolon token or fewer than two declarators,
  \<open>ExtractLiteralAsParameter\<close> when the innermost function definition above the last
  node has an ellipsis parameter, and \<open>ExtractFunction\<close> when the innermost function
  definition has a template as enclosing scope.
\<close>

theorem doMatch_returns_normally:
  "(\<exists>ops. SplitSimpleDeclaration_doMatch I = Inr ops)
   \<and> (\<exists>ops. AddBracesToControlStatement_doMatch I = Inr ops)
   \<and> (\<exists>ops. SplitIfStatement_doMatch I = Inr ops)
   \<and> (\<exists>ops. ConvertNumericLiteral_doMatch I = Inr ops)
   \<and> (\<exists>ops. CompleteSwitchCaseStatement_doMatch I = Inr ops)
   \<and> (\<exists>ops. ExtractFunction_doMatch prio I = Inr ops)
   \<and> (\<exists>ops. ExtractLiteralAsParameter_doMatch I = Inr ops)
   \<and> (\<exists>ops. ApplyDeclDefLinkChanges_doMatch link I = Inr ops)
   \<and> (innermost asSimpleDeclaration (path I) = Some d
        \<and> (semicolon_token d = 0 \<or> length (declarator_list d) < 2)
      \<longrightarrow> SplitSimpleDeclaration_doMatch I = Inr [])
   \<and> (innermost asFunctionDefinition (butlast (path I)) = Some f \<and> ellipsis_parameter f
      \<longrightarrow> ExtractLiteralAsParameter_doMatch I = Inr [])
   \<and> (innermost asFunctionDefinition (path I) = Some f' \<and> fd_symbol f' = Some symbol
        \<and> enclosingScope_asTemplate symbol
      \<longrightarrow> ExtractFunction_doMatch prio I = Inr [])"
proof -
  have "\<exists>ops. SplitSimpleDeclaration_doMatch I = Inr ops"
    using SplitSimpleDeclaration_doMatch_result [of I] by blast
  moreover have "\<exists>ops. AddBracesToControlStatement_doMatch I = Inr ops"
    using AddBraces_doMatch_result [of I] by blast
  moreover have "\<exists>ops. SplitIfStatement_doMatch I = Inr ops"
    using SplitIfStatement_doMatch_result [of I] by blast
  moreover have "\<exists>ops. ConvertNumericLiteral_doMatch I = Inr ops"
    using ConvertNumericLiteral_doMatch_result [of I] by blast
  moreover have "\<exists>ops. CompleteSwitchCaseStatement_doMatch I = Inr ops"
    using CompleteSwitchCaseStatement_doMatch_result [of I] by blast
  moreover have "\<exists>ops. ExtractFunction_doMatch prio I = Inr ops"
    by (rule ExtractFunction_doMatch_result)
  moreover have "\<exists>ops. ExtractLiteralAsParameter_doMatch I = Inr ops"
    using ExtractLiteralAsParameter_doMatch_result [of I] by blast
  moreover have "\<exists>ops. ApplyDeclDefLinkChanges_doMatch link I = Inr ops"
    by (simp add: ApplyDeclDefLinkChanges_doMatch_def split: option.splits)
  moreover have "innermost asSimpleDeclaration (path I) = Some d
        \<and> (semicolon_token d = 0 \<or> length (declarator_list d) < 2)
      \<longrightarrow> SplitSimpleDeclaration_doMatch I = Inr []"
    using SplitSimpleDeclaration_doMatch_unmet [of I d] by blast
  moreover have "innermost asFunctionDefinition (butlast (path I)) = Some f \<and> ellipsis_parameter f
      \<longrightarrow> ExtractLiteralAsParameter_doMatch I = Inr []"
    using ExtractLiteralAsParameter_doMatch_unmet [of I f] by blast
  moreover have "innermost asFunctionDefinition (path I) = Some f' \<and> fd_symbol f' = Some symbol
        \<and> enclosingScope_asTemplate symbol
      \<longrightarrow> ExtractFunction_doMatch prio I = Inr []"
    using ExtractFunction_doMatch_template [of I f' symbol prio] by blast
  ultimately show ?thesis by (intro conjI)
qed

theorem doMatch_returns_normally_witness:
  "SplitSimpleDeclaration_doMatch example_unmet_interface = Inr []
   \<and> ExtractLiteralAsParameter_doMatch example_unmet_interface = Inr []
   \<and> ExtractFunction_doMatch (- 1) example_unmet_interface = Inr []"
proof -
  let ?sym = "\<lparr>function_name = Some ''f'', enclosingScope_asTemplate = True\<rparr>"
  have h1: "innermost asSimpleDeclaration (path example_unmet_interface)
              = Some (example_declaration 0)
        \<and> (semicolon_token (example_declaration 0) = 0
            \<or> length (declarator_list (example_declaration 0)) < 2)"
    by (simp add: example_unmet_interface_def selection_interface_def example_declaration_def)
  have h2: "innermost asFunctionDefinition (butlast (path example_unmet_interface))
              = Some example_variadic_function
        \<and> ellipsis_parameter example_variadic_function"
    by (simp add: example_unmet_interface_def selection_interface_def ellipsis_parameter_def
        example_variadic_function_def)
  have h3: "innermost asFunctionDefinition (path example_unmet_interface)
              = Some example_variadic_function
        \<and> fd_symbol example_variadic_function = Some ?sym
        \<and> enclosingScope_asTemplate ?sym"
    by (simp add: example_unmet_interface_def selection_interface_def
        example_variadic_function_def)
  note inst = doMatch_returns_normally
    [of example_unmet_interface "- 1" None "example_declaration 0" example_variadic_function
        example_variadic_function ?sym]
  from inst h1 have "SplitSimpleDeclaration_doMatch example_unmet_interface = Inr []" by blast
  moreover from inst h2 have "ExtractLiteralAsParameter_doMatch example_unmet_interface = Inr []"
    by blast
  moreover from inst h3 have "ExtractFunction_doMatch (- 1) example_unmet_interface = Inr []"
    by blast
  ultimately show ?thesis by (intro conjI)
qed

subsection \<open>Claim C3\<close>


lemma example_refFuncDef:
  "ExtractFunction_refFuncDef (path (example_function_interface s e)) 2
     = Inr (Some example_function)"
  by (simp add: ExtractFunction_refFuncDef.simps [of _ 2] ExtractFunction_refFuncDef.simps [of _ 1]
      ExtractFunction_refFuncDef.simps [of _ 0] path_at_def example_function_interface_def
      selection_interface_def)

lemma example_function_interface_simps:
  "int (length (path (example_function_interface s e))) - 1 = 2"
  "hasSelection (currentFile (example_function_interface s e))"
  "selectionStart (currentFile (example_function_interface s e)) = s"
  "selectionEnd (currentFile (example_function_interface s e)) = e"
  "localUses (example_function_interface s e) = []"
  by (simp_all add: example_function_interface_def selection_interface_def)

lemma example_function_simps:
  "function_body example_function = Some (CompoundStatementAST 9 37 5 [example_while])"
  "fd_symbol example_function =
     Some \<lparr>function_name = Some ''f'', enclosingScope_asTemplate = False\<rparr>"
  "ExtractFunction_refFuncParams example_function known = (known, {})"
  by (simp_all add: example_function_def ExtractFunction_refFuncParams_def)

text \<open>
  With the keyword \<open>while\<close> selected, the analyser takes the whole \<open>while\<close> statement
  as the extraction and is done at its body, before it has seen the \<open>return\<close>
  statement.
\<close>

lemma example_analyser_keyword:
  "FunctionExtractionAnalyser_call example_function (FunctionExtractionAnalyser_new 11 16) =
     (True, \<lparr>m_done = True, m_failed = False, m_selStart = 11, m_selEnd = 16,
             m_extractionStart = 11, m_extractionEnd = 35, m_knownDecls = (\<lambda>name. None)\<rparr>)"
  by (simp add: FunctionExtractionAnalyser_call_def FunctionExtractionAnalyser_new_def
      example_function_def example_while_def FunctionExtractionAnalyser_accept.simps)

text \<open>
  With the whole \<open>while\<close> statement selected, the analyser reaches the \<open>return\<close>
  statement and fails.
\<close>

lemma example_analyser_statement:
  "fst (FunctionExtractionAnalyser_call example_function (FunctionExtractionAnalyser_new 11 35))
     = False"
  by (simp add: FunctionExtractionAnalyser_call_def FunctionExtractionAnalyser_new_def
      example_function_def example_while_def FunctionExtractionAnalyser_accept.simps)

lemma ExtractFunction_return_in_selection:
  "ExtractFunction_doMatch prio (example_function_interface 11 35) = Inr []"
proof -
  obtain ok analyser where c:
    "FunctionExtractionAnalyser_call example_function (FunctionExtractionAnalyser_new 11 35)
       = (ok, analyser)"
    by (cases "FunctionExtractionAnalyser_call example_function
                 (FunctionExtractionAnalyser_new 11 35)")
  with example_analyser_statement have "\<not> ok" by simp
  with c show ?thesis
    by (simp add: ExtractFunction_doMatch_def Let_def example_function_interface_simps
        example_refFuncDef example_function_simps)
qed

text \<open>
  C3. For the function \<open>void f() { while (true) { return; } }\<close> with the keyword
  \<open>while\<close> selected, \<open>ExtractFunction::doMatch\<close> offers an operation: the extraction
  of the positions 11 to 35, which is the whole \<open>while\<close> statement with the \<open>return\<close>
  statement in it, with no return value and no parameters.
\<close>

theorem ExtractFunction_return_in_first_statement:
  "ExtractFunction_doMatch prio (example_function_interface 11 16) =
     Inr [\<lparr>priority = prio, description = ''Extract Function'',
           operation = ExtractFunctionOperation 11 35 example_function None []\<rparr>]"
  by (simp add: ExtractFunction_doMatch_def Let_def example_function_interface_simps
      example_refFuncDef example_function_simps example_analyser_keyword
      ExtractFunctionOperation_new_def)

text \<open>
  A second local symbol that is used inside and after the extraction, and not before it,
  ends the loop over the local symbols with no result.
\<close>

lemma ExtractFunction_locals_second_return:
  assumes "(name, uses) \<in> set locals"
    and "ExtractFunction_uses (m_extractionStart a) (m_extractionEnd a) uses
           (False, False, False) = (False, True, True)"
    and "funcReturn \<noteq> None"
  shows "ExtractFunction_locals a params locals funcReturn decls = None"
  using assms
proof (induction locals arbitrary: decls)
  case Nil
  then show ?case by simp
next
  case (Cons l locals)
  obtain n u where l: "l = (n, u)" by (cases l)
  show ?case
  proof (cases "l = (name, uses)")
    case True
    with l Cons.prems(2,3) show ?thesis
      by (auto split: option.splits)
  next
    case False
    with Cons.prems(1) have "(name, uses) \<in> set locals" by simp
    from Cons.IH [OF this Cons.prems(2,3)]
    have "ExtractFunction_locals a params locals funcReturn decls' = None" for decls' .
    with l Cons.prems(3) show ?thesis
      by (auto split: option.splits prod.splits)
  qed
qed

lemma ExtractFunction_locals_two_returns:
  assumes "ExtractFunction_uses (m_extractionStart a) (m_extractionEnd a) uses1
             (False, False, False) = (False, True, True)"
    and "ExtractFunction_uses (m_extractionStart a) (m_extractionEnd a) uses2
           (False, False, False) = (False, True, True)"
  shows "ExtractFunction_locals a params (before @ (name1, uses1) # between @ (name2, uses2) # after)
           funcReturn decls = None"
proof (induction before arbitrary: funcReturn decls)
  case Nil
  have "ExtractFunction_locals a params (between @ (name2, uses2) # after) (Some name1) decls'
          = None" for decls'
    by (rule ExtractFunction_locals_second_return [where name = name2, OF _ assms(2)])
       simp_all
  with assms(1) show ?case
    by (auto split: option.splits)
next
  case (Cons l before)
  obtain n u where l: "l = (n, u)" by (cases l)
  from Cons.IH l show ?case
    by (auto split: option.splits prod.splits)
qed


subsection \<open>CompleteSwitchCaseStatement: the case labels at the case level\<close>














subsection \<open>Claim C2\<close>







text \<open>
  The body of \<open>switch (e) { case B: ; { case A: ; } }\<close> has a case label in a block
  that begins after a case label: its labels do not stand at the case level.
\<close>

lemma example_nested_not_at_case_level:
  "\<not> labels_at_case_level [example_case 11, CompoundStatementAST 0 0 7 [example_case 10]]"
  by (simp add: labels_at_case_level.simps(2) example_case_def case_statements.simps)


end
